(* ===== verification/Prelude.thy ===== *)
theory Prelude
  imports Main "HOL-Library.Word"
begin

text \<open>
  Shared vocabulary of the development: the machine integers and byte strings of the Rust
  sources, results (\<open>Result<T, E>\<close> is \<open>'e + 'a\<close>, \<open>Inl\<close> the error), the string routines of
  the standard library that several components call, decimal printing of integers, and the
  contract (a locale) of the lazily filled per-key tables that the budget ledger, the
  rate-limit store and the metrics store all are.

  A Rust \<open>String\<close>, \<open>&str\<close> or \<open>Vec<u8>\<close> is the list of its bytes (an Isabelle \<^typ>\<open>char\<close> is
  one byte), so lengths and prefixes are those of the UTF-8 encoding.  \<open>usize\<close> values are
  lengths and indices of live objects and are natural numbers; the counters that can wrap
  are \<^typ>\<open>64 word\<close>.
\<close>

type_synonym u16 = "16 word"
type_synonym u32 = "32 word"
type_synonym u64 = "64 word"
type_synonym bytes = "char list"

named_theorems result_simps \<open>elimination of results that are known to be successes or errors\<close>
named_theorems table_simps \<open>reads after writes of the per-key tables\<close>

section \<open>Results\<close>

definition and_then :: "'e + 'a \<Rightarrow> ('a \<Rightarrow> 'e + 'b) \<Rightarrow> 'e + 'b" where
  "and_then r f = (case r of Inl e \<Rightarrow> Inl e | Inr x \<Rightarrow> f x)"

definition ok_or :: "'a option \<Rightarrow> 'e \<Rightarrow> 'e + 'a" where
  "ok_or x e = (case x of None \<Rightarrow> Inl e | Some y \<Rightarrow> Inr y)"

definition ensure_that :: "bool \<Rightarrow> 'e \<Rightarrow> 'e + unit" where
  "ensure_that b e = (if b then Inr () else Inl e)"

lemma and_then_simps [simp]:
  "and_then (Inl e) f = Inl e"
  "and_then (Inr x) f = f x"
  by (simp_all add: and_then_def)

lemma and_then_Inr_iff [result_simps]:
  "and_then r f = Inr y \<longleftrightarrow> (\<exists>x. r = Inr x \<and> f x = Inr y)"
  by (cases r) auto

lemma and_then_Inl_iff [result_simps]:
  "and_then r f = Inl e \<longleftrightarrow> r = Inl e \<or> (\<exists>x. r = Inr x \<and> f x = Inl e)"
  by (cases r) auto

lemma ok_or_simps [simp]:
  "ok_or None e = Inl e"
  "ok_or (Some x) e = Inr x"
  by (simp_all add: ok_or_def)

lemma ok_or_Inr_iff [result_simps]: "ok_or x e = Inr y \<longleftrightarrow> x = Some y"
  by (cases x) auto

lemma ok_or_Inl_iff [result_simps]: "ok_or x e = Inl e' \<longleftrightarrow> x = None \<and> e' = e"
  by (cases x) auto

lemma ensure_that_simps [simp]:
  "ensure_that True e = Inr ()"
  "ensure_that False e = Inl e"
  by (simp_all add: ensure_that_def)

lemma ensure_that_Inr_iff [result_simps]: "ensure_that b e = Inr u \<longleftrightarrow> b"
  by (auto simp: ensure_that_def)

lemma ensure_that_Inl_iff [result_simps]: "ensure_that b e = Inl e' \<longleftrightarrow> \<not> b \<and> e' = e"
  by (auto simp: ensure_that_def)

section \<open>String routines of the standard library\<close>

text \<open>\<open>str::starts_with\<close>, \<open>str::strip_prefix\<close> and \<open>slice::strip_prefix\<close>.\<close>

fun strip_prefix :: "'a list \<Rightarrow> 'a list \<Rightarrow> 'a list option" where
  "strip_prefix [] ys = Some ys"
| "strip_prefix (x # xs) [] = None"
| "strip_prefix (x # xs) (y # ys) = (if x = y then strip_prefix xs ys else None)"

definition starts_with :: "'a list \<Rightarrow> 'a list \<Rightarrow> bool" where
  "starts_with p xs \<longleftrightarrow> take (length p) xs = p"

text \<open>\<open>str::trim_end_matches\<close> with a single character.\<close>

definition trim_end_matches :: "'a \<Rightarrow> 'a list \<Rightarrow> 'a list" where
  "trim_end_matches c xs = rev (dropWhile (\<lambda>x. x = c) (rev xs))"

lemma strip_prefix_eq_Some [simp]: "strip_prefix p xs = Some r \<longleftrightarrow> xs = p @ r"
  by (induction p xs rule: strip_prefix.induct) auto

lemma strip_prefix_append [simp]: "strip_prefix p (p @ r) = Some r"
  by simp

lemma starts_with_append [simp]: "starts_with p (p @ r)"
  by (simp add: starts_with_def)

lemma starts_withE:
  assumes "starts_with p xs"
  obtains r where "xs = p @ r"
  using assms by (metis append_take_drop_id starts_with_def)

lemma trim_end_matches_decomp: "\<exists>n. xs = trim_end_matches c xs @ replicate n c"
proof -
  let ?w = "takeWhile (\<lambda>x. x = c) (rev xs)"
  have "xs = rev (?w @ dropWhile (\<lambda>x. x = c) (rev xs))" by simp
  then have "xs = trim_end_matches c xs @ rev ?w"
    by (simp only: rev_append trim_end_matches_def)
  moreover have "rev ?w = replicate (length ?w) c"
    by (rule replicate_eqI) (auto dest: set_takeWhileD)
  ultimately show ?thesis by metis
qed

lemma trim_end_matches_last:
  assumes "trim_end_matches c xs \<noteq> []"
  shows "last (trim_end_matches c xs) \<noteq> c"
proof -
  let ?d = "dropWhile (\<lambda>x. x = c) (rev xs)"
  from assms have "?d \<noteq> []" by (simp add: trim_end_matches_def)
  then have "hd ?d \<noteq> c" by (rule hd_dropWhile)
  with \<open>?d \<noteq> []\<close> show ?thesis by (simp add: trim_end_matches_def last_rev)
qed

text \<open>\<open>Display\<close> of an unsigned integer.\<close>

definition digit_char :: "nat \<Rightarrow> char" where
  "digit_char d = char_of (48 + d)"

fun show_nat :: "nat \<Rightarrow> string" where
  "show_nat n = (if n < 10 then [digit_char n] else show_nat (n div 10) @ [digit_char (n mod 10)])"

declare show_nat.simps [simp del]

definition read_nat :: "string \<Rightarrow> nat" where
  "read_nat ds = foldl (\<lambda>n c. 10 * n + (of_char c - 48)) 0 ds"

lemma read_nat_show_nat: "read_nat (show_nat n) = n"
proof (induction n rule: show_nat.induct)
  case (1 n)
  have digit: "of_char (digit_char d) = 48 + d" if "d < 10" for d :: nat
    using that by (simp add: digit_char_def)
  show ?case
  proof (cases "n < 10")
    case True
    then show ?thesis by (subst show_nat.simps) (simp add: read_nat_def digit)
  next
    case False
    with "1.IH" have "read_nat (show_nat (n div 10)) = n div 10" by simp
    with False show ?thesis
      by (subst show_nat.simps) (simp add: read_nat_def digit)
  qed
qed

lemma show_nat_inject: "show_nat m = show_nat n \<longleftrightarrow> m = n"
  by (metis read_nat_show_nat)

section \<open>Per-key tables filled on demand\<close>

text \<open>
  The budget ledger, the token counters of the rate limiter and every metrics family follow
  one pattern: \<open>fetch\<close> returns the cell of a key, creating a fresh one when the key is new,
  and the caller updates the cell in place (\<open>store\<close>).  The laws say what a lookup sees
  afterwards.
\<close>

locale lazy_table =
  fixes lookup :: "'s \<Rightarrow> string \<Rightarrow> 'c option"
    and fetch :: "string \<Rightarrow> 's \<Rightarrow> 'c \<times> 's"
    and store :: "string \<Rightarrow> 'c \<Rightarrow> 's \<Rightarrow> 's"
    and fresh :: 'c
  assumes fetch_value: "fst (fetch k s) = (case lookup s k of None \<Rightarrow> fresh | Some c \<Rightarrow> c)"
    and fetch_lookup: "lookup (snd (fetch k s)) k' = (if k' = k then Some (fst (fetch k s)) else lookup s k')"
    and store_lookup: "lookup (store k c s) k' = (if k' = k then Some c else lookup s k')"
begin

lemma update_lookup:
  "lookup (store k (f (fst (fetch k s))) (snd (fetch k s))) k' =
     (if k' = k then Some (f (case lookup s k of None \<Rightarrow> fresh | Some c \<Rightarrow> c)) else lookup s k')"
  by (simp add: store_lookup fetch_lookup fetch_value)

end

text \<open>
  An accumulating table adds an amount to a component of the cell: after any sequence of
  records, the component holds the sum of the amounts recorded under the key (modulo the
  width of the counter).
\<close>

locale accumulating_table = lazy_table +
  fixes record_op :: "string \<Rightarrow> 'u \<Rightarrow> 's \<Rightarrow> 's"
    and bump :: "'u \<Rightarrow> 'c \<Rightarrow> 'c"
    and total :: "'c \<Rightarrow> u64"
    and amount :: "'u \<Rightarrow> u64"
  assumes record_eq: "record_op k u s = store k (bump u (fst (fetch k s))) (snd (fetch k s))"
    and bump_total: "total (bump u c) = total c + amount u"
    and fresh_total: "total fresh = 0"
begin

lemma total_record:
  "(case lookup (record_op k u s) k' of None \<Rightarrow> 0 | Some c \<Rightarrow> total c) =
   (case lookup s k' of None \<Rightarrow> 0 | Some c \<Rightarrow> total c) + (if k' = k then amount u else 0)"
  by (simp add: record_eq update_lookup bump_total fresh_total split: option.splits)

lemma total_records:
  "(case lookup (foldl (\<lambda>s (k, u). record_op k u s) s us) k' of None \<Rightarrow> 0 | Some c \<Rightarrow> total c) =
   (case lookup s k' of None \<Rightarrow> 0 | Some c \<Rightarrow> total c) +
   sum_list (map (\<lambda>(k, u). amount u) (filter (\<lambda>(k, u). k = k') us))"
proof (induction us arbitrary: s)
  case (Cons ku us)
  obtain k u where ku: "ku = (k, u)" by (cases ku)
  show ?case
    using Cons.IH[of "record_op k u s"] total_record[of k u s k'] by (auto simp: ku add.assoc)
qed simp

end

section \<open>Systems that run down\<close>

text \<open>
  Several parts of the crate are collections of activities of which any one may move: calls on the
  ledger, requests in flight, open responses.  If every step uses up some weight and an unfinished
  state has a step, then every sequence of steps ends, and can only end finished.
\<close>

locale progressing =
  fixes step :: "'s \<Rightarrow> 's \<Rightarrow> bool"
    and finished :: "'s \<Rightarrow> bool"
    and weight :: "'s \<Rightarrow> nat"
  assumes decreasing: "step s s' \<Longrightarrow> weight s' < weight s"
    and enabled: "\<not> finished s \<Longrightarrow> \<exists>s'. step s s'"
begin

lemma steps_bounded: "(step ^^ n) s s' \<Longrightarrow> n + weight s' \<le> weight s"
proof (induction n arbitrary: s')
  case (Suc n)
  then obtain t where "(step ^^ n) s t" "step t s'" by auto
  with Suc.IH[of t] decreasing[of t s'] show ?case by simp
qed simp

lemma reaches_finished: "\<exists>s'. step\<^sup>*\<^sup>* s s' \<and> finished s'"
proof (induction "weight s" arbitrary: s rule: less_induct)
  case less
  show ?case
  proof (cases "finished s")
    case False
    then obtain t where t: "step s t" using enabled by blast
    from less[OF decreasing[OF t]] obtain s' where "step\<^sup>*\<^sup>* t s'" "finished s'" by blast
    with t show ?thesis by (meson converse_rtranclp_into_rtranclp)
  qed blast
qed

end

text \<open>The weight of a list of activities is the sum of theirs.\<close>

lemma weight_update:
  fixes f :: "'a \<Rightarrow> nat"
  assumes "i < length xs" and "f y < f (xs ! i)"
  shows "sum_list (map f (xs[i := y])) < sum_list (map f xs)"
proof -
  have "map f (xs[i := y]) = (map f xs)[i := f y]" by (simp add: map_update)
  then show ?thesis
    using assms elem_le_sum_list[of i "map f xs"] by (simp add: sum_list_update)
qed

end
