(* ===== verification/F64.thy ===== *)
theory F64
  imports Prelude Complex_Main "HOL-Library.Log_Nat"
begin

text \<open>
  The binary64 arithmetic of the language, as far as the sources use it (the EWMA latency of
  the router and the blending factor of the configuration): exact rational arithmetic followed
  by rounding to the nearest representable value, ties to even, with overflow to infinity.
  The sign of a zero and of a NaN is not represented: no value the sources compute or compare
  is a negative zero (a factor must be positive, a latency is never negative), so
  \<open>f64::total_cmp\<close> on the values that occur is the linear order declared here.
\<close>

datatype f64 = NegInf | Fin rat | PosInf | NaN

section \<open>Rounding\<close>

text \<open>\<open>floor_log2 x\<close> is the exponent of the leading binary digit of a positive rational.\<close>

definition floor_log2 :: "rat \<Rightarrow> int" where
  "floor_log2 x = (let (p, q) = quotient_of x; k = bitlen p - bitlen q
                   in if 2 powi k \<le> x then k else k - 1)"

definition round_half_even :: "rat \<Rightarrow> int" where
  "round_half_even x = (let f = \<lfloor>x\<rfloor>; d = x - of_int f
     in if d < 1 / 2 then f else if 1 / 2 < d then f + 1 else if even f then f else f + 1)"

text \<open>The exponent of the last place: 52 below the leading digit, but never below -1074.\<close>

definition ulp_exp :: "rat \<Rightarrow> int" where
  "ulp_exp x = max (floor_log2 \<bar>x\<bar> - 52) (- 1074)"

definition round_rat :: "rat \<Rightarrow> rat" where
  "round_rat x = (if x = 0 then 0
     else of_int (round_half_even (x / 2 powi (ulp_exp x))) * 2 powi (ulp_exp x))"

definition fl :: "rat \<Rightarrow> f64" where
  "fl x = (let r = round_rat x
           in if 2 ^ 1024 \<le> r then PosInf else if r \<le> - (2 ^ 1024) then NegInf else Fin r)"

section \<open>Operations\<close>

fun f64_neg :: "f64 \<Rightarrow> f64" where
  "f64_neg NegInf = PosInf"
| "f64_neg (Fin x) = Fin (- x)"
| "f64_neg PosInf = NegInf"
| "f64_neg NaN = NaN"

fun f64_add :: "f64 \<Rightarrow> f64 \<Rightarrow> f64" where
  "f64_add NaN y = NaN"
| "f64_add x NaN = NaN"
| "f64_add (Fin x) (Fin y) = fl (x + y)"
| "f64_add PosInf NegInf = NaN"
| "f64_add NegInf PosInf = NaN"
| "f64_add PosInf y = PosInf"
| "f64_add x PosInf = PosInf"
| "f64_add NegInf y = NegInf"
| "f64_add x NegInf = NegInf"

definition f64_sub :: "f64 \<Rightarrow> f64 \<Rightarrow> f64" where
  "f64_sub x y = f64_add x (f64_neg y)"

text \<open>Product: zero times infinity is NaN, otherwise the sign decides which infinity.\<close>

fun f64_mul :: "f64 \<Rightarrow> f64 \<Rightarrow> f64" where
  "f64_mul NaN y = NaN"
| "f64_mul x NaN = NaN"
| "f64_mul (Fin x) (Fin y) = fl (x * y)"
| "f64_mul (Fin x) PosInf = (if x = 0 then NaN else if 0 < x then PosInf else NegInf)"
| "f64_mul (Fin x) NegInf = (if x = 0 then NaN else if 0 < x then NegInf else PosInf)"
| "f64_mul PosInf (Fin y) = (if y = 0 then NaN else if 0 < y then PosInf else NegInf)"
| "f64_mul NegInf (Fin y) = (if y = 0 then NaN else if 0 < y then NegInf else PosInf)"
| "f64_mul PosInf PosInf = PosInf"
| "f64_mul PosInf NegInf = NegInf"
| "f64_mul NegInf PosInf = NegInf"
| "f64_mul NegInf NegInf = PosInf"

fun is_finite :: "f64 \<Rightarrow> bool" where
  "is_finite (Fin x) = True"
| "is_finite y = False"

section \<open>Comparisons\<close>

text \<open>\<open>total_cmp\<close> is the linear order; the operators \<open>>\<close> and \<open><=\<close> are false on NaN.\<close>

instantiation f64 :: linorder
begin

fun less_eq_f64 :: "f64 \<Rightarrow> f64 \<Rightarrow> bool" where
  "less_eq_f64 NegInf y = True"
| "less_eq_f64 (Fin x) NegInf = False"
| "less_eq_f64 (Fin x) (Fin y) = (x \<le> y)"
| "less_eq_f64 (Fin x) y = True"
| "less_eq_f64 PosInf NegInf = False"
| "less_eq_f64 PosInf (Fin y) = False"
| "less_eq_f64 PosInf y = True"
| "less_eq_f64 NaN y = (y = NaN)"

definition less_f64 :: "f64 \<Rightarrow> f64 \<Rightarrow> bool" where
  "less_f64 x y = (x \<le> y \<and> \<not> y \<le> x)"

instance
proof
  fix x y z :: f64
  show "x < y \<longleftrightarrow> x \<le> y \<and> \<not> y \<le> x" by (rule less_f64_def)
  show "x \<le> x" by (cases x) auto
  show "x \<le> z" if "x \<le> y" "y \<le> z" using that by (cases x; cases y; cases z) auto
  show "x = y" if "x \<le> y" "y \<le> x" using that by (cases x; cases y) auto
  show "x \<le> y \<or> y \<le> x" by (cases x; cases y) auto
qed

end

definition f64_gt :: "f64 \<Rightarrow> f64 \<Rightarrow> bool" where
  "f64_gt x y \<longleftrightarrow> x \<noteq> NaN \<and> y \<noteq> NaN \<and> y < x"

definition f64_le :: "f64 \<Rightarrow> f64 \<Rightarrow> bool" where
  "f64_le x y \<longleftrightarrow> x \<noteq> NaN \<and> y \<noteq> NaN \<and> x \<le> y"

lemma Fin_less_iff [simp]: "Fin x < Fin y \<longleftrightarrow> x < y"
  by (auto simp: less_f64_def)

lemma Fin_le_iff [simp]: "Fin x \<le> Fin y \<longleftrightarrow> x \<le> y"
  by simp

lemma f64_in_unit_interval:
  "f64_gt a (Fin 0) \<and> f64_le a (Fin 1) \<longleftrightarrow> (\<exists>x. a = Fin x \<and> 0 < x \<and> x \<le> 1)"
  by (cases a) (auto simp: f64_gt_def f64_le_def less_f64_def)

section \<open>Laws of rounding\<close>

lemma powi_pos [simp]: "0 < (2::rat) powi e"
  by simp

lemma floor_log2_bounds:
  assumes "0 < x"
  shows "2 powi (floor_log2 x) \<le> x" and "x < 2 powi (floor_log2 x + 1)"
proof -
  obtain p q where pq: "quotient_of x = (p, q)" by (cases "quotient_of x")
  have q: "0 < q" using quotient_of_denom_pos[OF pq] .
  have x: "x = of_int p / of_int q" using quotient_of_div[OF pq] .
  have p: "0 < p" using assms q x by (simp add: zero_less_divide_iff)
  have up: "(of_int n :: rat) < 2 powi (bitlen n)" and lo: "2 powi (bitlen n - 1) \<le> (of_int n :: rat)"
    if "0 < n" for n
  proof -
    have "bitlen n \<ge> 1" using that by (simp add: bitlen_def floorlog_def nat_le_iff Suc_le_eq)
    moreover have "2 ^ nat (bitlen n - 1) \<le> n" "n < 2 ^ nat (bitlen n)" using bitlen_bounds[OF that] by auto
    then have "(2::rat) ^ nat (bitlen n - 1) \<le> of_int n" "(of_int n :: rat) < 2 ^ nat (bitlen n)"
      by (metis of_int_le_iff of_int_numeral of_int_power, metis of_int_less_iff of_int_numeral of_int_power)
    ultimately show "(of_int n :: rat) < 2 powi (bitlen n)" "2 powi (bitlen n - 1) \<le> (of_int n :: rat)"
      by (simp_all add: power_int_def)
  qed
  let ?k = "bitlen p - bitlen q"
  have fl: "floor_log2 x = (if 2 powi ?k \<le> x then ?k else ?k - 1)"
    by (simp add: floor_log2_def pq Let_def)
  have q': "0 < (of_int q :: rat)" using q by simp
  have eq1: "2 powi (?k - 1) * 2 powi (bitlen q) = (2::rat) powi (bitlen p - 1)"
    by (simp flip: power_int_add)
  have eq2: "2 powi (?k + 1) * 2 powi (bitlen q - 1) = (2::rat) powi (bitlen p)"
    by (simp flip: power_int_add)
  have "2 powi (?k - 1) * of_int q < (2::rat) powi (?k - 1) * 2 powi (bitlen q)"
    using up[OF q] by (intro mult_strict_left_mono) auto
  also have "\<dots> \<le> of_int p" using lo[OF p] eq1 by simp
  finally have "2 powi (?k - 1) < x" by (simp add: x pos_less_divide_eq[OF q'])
  moreover have "of_int p < 2 powi (?k + 1) * (of_int q :: rat)"
  proof -
    have "2 powi (?k + 1) * 2 powi (bitlen q - 1) \<le> 2 powi (?k + 1) * (of_int q :: rat)"
      using lo[OF q] by (intro mult_left_mono) auto
    then show ?thesis using up[OF p] eq2 by linarith
  qed
  then have "x < 2 powi (?k + 1)" by (simp add: x pos_divide_less_eq[OF q'])
  ultimately show "2 powi (floor_log2 x) \<le> x" and "x < 2 powi (floor_log2 x + 1)"
    by (auto simp: fl)
qed

lemma powi_le_iff [simp]: "(2::rat) powi a \<le> 2 powi b \<longleftrightarrow> a \<le> b"
  by (metis linorder_not_less one_less_numeral_iff order_less_imp_le power_int_increasing power_int_strict_increasing semiring_norm(76))

lemma powi_less_iff [simp]: "(2::rat) powi a < 2 powi b \<longleftrightarrow> a < b"
  by (metis linorder_not_less powi_le_iff)

lemma floor_log2_mono: "0 < x \<Longrightarrow> x \<le> y \<Longrightarrow> floor_log2 x \<le> floor_log2 y"
proof -
  assume "0 < x" "x \<le> y"
  then have "2 powi (floor_log2 x) < (2::rat) powi (floor_log2 y + 1)"
    using floor_log2_bounds[of x] floor_log2_bounds[of y] by linarith
  then show ?thesis by simp
qed

lemma floor_log2_powi [simp]: "floor_log2 (2 powi k) = k"
proof -
  have "2 powi (floor_log2 (2 powi k)) \<le> (2::rat) powi k" "(2::rat) powi k < 2 powi (floor_log2 (2 powi k) + 1)"
    using floor_log2_bounds[of "2 powi k"] by auto
  then show ?thesis by simp
qed

lemma round_half_even_of_int [simp]: "round_half_even (of_int n) = n"
  by (simp add: round_half_even_def)

lemma round_half_even_error: "\<bar>of_int (round_half_even x) - x\<bar> \<le> 1 / 2"
proof -
  have "of_int \<lfloor>x\<rfloor> \<le> x" "x < of_int \<lfloor>x\<rfloor> + 1"
    using floor_correct[of x] by auto
  then show ?thesis
    by (simp add: round_half_even_def Let_def abs_if del: of_int_floor_le)
qed

lemma round_half_even_mono: assumes "x \<le> y" shows "round_half_even x \<le> round_half_even y"
proof -
  have fl: "\<lfloor>x\<rfloor> \<le> \<lfloor>y\<rfloor>" using assms by (rule floor_mono)
  have r: "round_half_even z \<in> {\<lfloor>z\<rfloor>, \<lfloor>z\<rfloor> + 1}" for z
    by (simp add: round_half_even_def Let_def)
  show ?thesis
  proof (cases "\<lfloor>x\<rfloor> = \<lfloor>y\<rfloor>")
    case True
    then show ?thesis using assms by (auto simp: round_half_even_def Let_def)
  next
    case False
    with fl r[of x] r[of y] show ?thesis by auto
  qed
qed


lemma round_half_even_nonneg: "0 \<le> x \<Longrightarrow> 0 \<le> round_half_even x"
  using round_half_even_mono[of "of_int 0" x] by (simp del: of_int_0)

lemma round_rat_0 [simp]: "round_rat 0 = 0"
  by (simp add: round_rat_def)

lemma round_rat_nonneg: "0 \<le> x \<Longrightarrow> 0 \<le> round_rat x"
  by (simp add: round_rat_def round_half_even_nonneg)

lemma ulp_exp_ge: "- 1074 \<le> ulp_exp x"
  by (simp add: ulp_exp_def)

lemma powi_int_grid:
  assumes "e \<le> k"
  shows "2 powi k / 2 powi e = (of_int (2 ^ nat (k - e)) :: rat)"
proof -
  have "2 powi k = (2::rat) powi (k - e) * 2 powi e" by (simp flip: power_int_add)
  moreover have "(2::rat) powi (k - e) = of_int (2 ^ nat (k - e))" using assms by (simp add: power_int_def)
  ultimately show ?thesis by simp
qed

lemma round_rat_le_grid:
  assumes "0 < x" "x / 2 powi (ulp_exp x) \<le> of_int n + 1 / 2" "even n"
  shows "round_rat x \<le> of_int n * 2 powi (ulp_exp x)"
proof -
  have "round_half_even (of_int n + 1 / 2) = n"
  proof -
    have "\<lfloor>of_int n + 1 / 2 :: rat\<rfloor> = n" by (rule floor_unique) auto
    with \<open>even n\<close> show ?thesis by (simp add: round_half_even_def Let_def)
  qed
  then have "round_half_even (x / 2 powi (ulp_exp x)) \<le> n"
    using round_half_even_mono[OF assms(2)] by simp
  then have "(of_int (round_half_even (x / 2 powi (ulp_exp x))) :: rat) \<le> of_int n" by (simp only: of_int_le_iff)
  then show ?thesis using \<open>0 < x\<close> by (simp add: round_rat_def mult_right_mono)
qed

lemma round_rat_le_powi:
  assumes "0 \<le> x" "x \<le> 2 powi k" "- 1074 \<le> k"
  shows "round_rat x \<le> 2 powi k"
proof (cases "x = 0")
  case False
  with assms have "0 < x" by simp
  let ?e = "ulp_exp x"
  have "floor_log2 x \<le> k" using floor_log2_mono[OF \<open>0 < x\<close> assms(2)] by simp
  then have e: "?e \<le> k" using \<open>0 < x\<close> assms(3) by (simp add: ulp_exp_def)
  have "x / 2 powi ?e \<le> 2 powi k / 2 powi ?e" using assms(2) by (simp add: divide_right_mono)
  then have "round_half_even (x / 2 powi ?e) \<le> round_half_even (of_int (2 ^ nat (k - ?e)))"
    by (intro round_half_even_mono) (simp only: powi_int_grid[OF e])
  then have "round_half_even (x / 2 powi ?e) \<le> 2 ^ nat (k - ?e)" by (simp only: round_half_even_of_int)
  then have "(of_int (round_half_even (x / 2 powi ?e)) :: rat) \<le> 2 powi k / 2 powi ?e"
    unfolding powi_int_grid[OF e] by (simp only: of_int_le_iff)
  then show ?thesis using False by (simp add: round_rat_def pos_le_divide_eq)
qed simp

lemma round_rat_ge_powi:
  assumes "2 powi k \<le> x" "- 1074 \<le> k"
  shows "2 powi k \<le> round_rat x"
proof -
  have "0 < x" using assms(1) powi_pos less_le_trans by blast
  let ?e = "ulp_exp x" and ?L = "floor_log2 x"
  have kL: "k \<le> ?L" using floor_log2_mono[OF powi_pos assms(1)] by simp
  then have e: "?e \<le> ?L" using \<open>0 < x\<close> assms(2) by (simp add: ulp_exp_def)
  have "2 powi ?L / 2 powi ?e \<le> x / 2 powi ?e"
    using floor_log2_bounds(1)[OF \<open>0 < x\<close>] by (simp add: divide_right_mono)
  then have "round_half_even (of_int (2 ^ nat (?L - ?e))) \<le> round_half_even (x / 2 powi ?e)"
    by (intro round_half_even_mono) (simp only: powi_int_grid[OF e])
  then have "2 ^ nat (?L - ?e) \<le> round_half_even (x / 2 powi ?e)" by (simp only: round_half_even_of_int)
  then have "2 powi ?L / 2 powi ?e \<le> (of_int (round_half_even (x / 2 powi ?e)) :: rat)"
    unfolding powi_int_grid[OF e] by (simp only: of_int_le_iff)
  then have "2 powi ?L \<le> round_rat x"
    using \<open>0 < x\<close> by (simp add: round_rat_def pos_divide_le_eq)
  with kL show ?thesis by (meson order_trans powi_le_iff)
qed

lemma round_rat_mono:
  assumes "0 \<le> x" "x \<le> y"
  shows "round_rat x \<le> round_rat y"
proof (cases "x = 0 \<or> ulp_exp x = ulp_exp y")
  case True
  then show ?thesis
  proof
    assume "x = 0" then show ?thesis using assms by (simp add: round_rat_nonneg)
  next
    assume eq: "ulp_exp x = ulp_exp y"
    have "round_half_even (x / 2 powi (ulp_exp y)) \<le> round_half_even (y / 2 powi (ulp_exp y))"
      using assms(2) by (intro round_half_even_mono) (simp add: divide_right_mono)
    then show ?thesis using assms eq by (auto simp: round_rat_def mult_right_mono round_half_even_nonneg)
  qed
next
  case False
  with assms have x: "0 < x" and y: "0 < y" and ne: "ulp_exp x \<noteq> ulp_exp y" by auto
  have "floor_log2 x \<le> floor_log2 y" using floor_log2_mono[OF x assms(2)] .
  with ne x y have lt: "floor_log2 x < floor_log2 y" and ge: "- 1074 \<le> floor_log2 y" by (auto simp: ulp_exp_def)
  have "x \<le> 2 powi (floor_log2 y)"
  proof -
    have "x < 2 powi (floor_log2 x + 1)" using floor_log2_bounds(2)[OF x] .
    also have "\<dots> \<le> (2::rat) powi (floor_log2 y)" using lt by (subst powi_le_iff) simp
    finally show ?thesis by simp
  qed
  then have "round_rat x \<le> 2 powi (floor_log2 y)" using assms(1) ge by (intro round_rat_le_powi) auto
  also have "\<dots> \<le> round_rat y" using floor_log2_bounds(1)[OF y] ge by (rule round_rat_ge_powi)
  finally show ?thesis .
qed

lemma round_rat_slack:
  assumes "0 \<le> x" "x \<le> 2 powi k * (1 + 2 powi (- 53))" "- 1022 \<le> k"
  shows "round_rat x \<le> 2 powi k"
proof (cases "x \<le> 2 powi k")
  case True
  then show ?thesis using assms by (intro round_rat_le_powi) auto
next
  case False
  then have x: "0 < x" and gt: "2 powi k < x" by (meson linorder_not_le powi_pos less_trans)+
  have "x < 2 powi (k + 1)"
  proof -
    have "(2::rat) powi k * (1 + 2 powi (- 53)) < 2 powi k * 2"
      by (intro mult_strict_left_mono) (auto simp: power_int_minus)
    then have "x < 2 powi k * 2" using assms(2) by (rule le_less_trans[rotated])
    then show ?thesis by (simp add: power_int_add)
  qed
  then have "(2::rat) powi (floor_log2 x) < 2 powi (k + 1)" using floor_log2_bounds(1)[OF x] by linarith
  then have "floor_log2 x \<le> k" by simp
  moreover have "k \<le> floor_log2 x" using floor_log2_mono[OF powi_pos, of k x] gt by simp
  ultimately have e: "ulp_exp x = k - 52" using x assms(3) by (simp add: ulp_exp_def)
  have "x / 2 powi (k - 52) \<le> 2 powi k * (1 + 2 powi (- 53)) / 2 powi (k - 52)"
    by (rule divide_right_mono[OF assms(2)]) simp
  also have "\<dots> = of_int (2 ^ 52) + 1 / 2"
    by (simp add: power_int_diff power_int_minus field_simps)
  finally have "round_rat x \<le> of_int (2 ^ 52) * 2 powi (ulp_exp x)"
    using x unfolding e[symmetric] by (intro round_rat_le_grid) auto
  then show ?thesis unfolding e by (simp add: power_int_diff)
qed

lemma round_rat_exact:
  assumes "0 \<le> n" "n \<le> 2 ^ 53" "- 1074 \<le> e"
  shows "round_rat (of_int n * 2 powi e) = of_int n * 2 powi e"
proof (cases "n = 0")
  case False
  let ?x = "of_int n * 2 powi e :: rat" 
  have x: "0 < ?x" using assms False by simp
  obtain m where m: "?x / 2 powi (ulp_exp ?x) = of_int m"
  proof (cases "n = 2 ^ 53")
    case True
    then have xe: "?x = 2 powi (e + 53)" by (simp add: power_int_add)
    then have "ulp_exp ?x \<le> e + 53" using x assms(3) by (simp add: ulp_exp_def)
    from powi_int_grid[OF this] show ?thesis using that unfolding xe by blast
  next
    case False
    then have "n < 2 ^ 53" using assms by simp
    then have "of_int n < (of_int (2 ^ 53) :: rat)" by (simp only: of_int_less_iff)
    then have "?x < 2 powi (e + 53)" by (simp add: power_int_add)
    then have "2 powi (floor_log2 ?x) < (2::rat) powi (e + 53)" using floor_log2_bounds(1)[OF x] by linarith
    then have "ulp_exp ?x \<le> e" using x assms(3) by (simp add: ulp_exp_def)
    from powi_int_grid[OF this] have "?x / 2 powi (ulp_exp ?x) = of_int (n * 2 ^ nat (e - ulp_exp ?x))"
      by (simp add: field_simps)
    then show ?thesis using that by blast
  qed
  then have "?x = of_int m * 2 powi (ulp_exp ?x)" by (simp add: field_simps)
  then show ?thesis using x m unfolding round_rat_def by simp
qed simp

lemma fl_nonneg:
  assumes "0 \<le> x" "x \<le> 2 powi 1023"
  shows "fl x = Fin (round_rat x)"
proof -
  have r: "0 \<le> round_rat x" "round_rat x \<le> 2 powi 1023"
    using assms(1) round_rat_nonneg apply blast
    by (rule round_rat_le_powi[OF assms]) simp
  have "(2::rat) powi 1023 < 2 powi 1024" by (subst powi_less_iff) simp
  moreover have "(2::rat) powi 1024 = 2 ^ 1024" by (simp only: power_int_numeral)
  ultimately have "round_rat x < 2 ^ 1024" using r by linarith
  moreover have "\<not> round_rat x \<le> - (2 ^ 1024)" 
  proof -
    have "- (2 ^ 1024) < (0::rat)" by (simp only: neg_less_0_iff_less) simp
    then show ?thesis using r(1) by linarith
  qed
  ultimately show ?thesis by (simp only: fl_def Let_def) simp
qed

lemma round_rat_repr:
  assumes "0 \<le> x"
  obtains n e where "0 \<le> n" "n \<le> 2 ^ 53" "- 1074 \<le> e" "round_rat x = of_int n * 2 powi e"
proof (cases "x = 0")
  case True
  then show ?thesis using that[of 0 0] by simp
next
  case False
  with assms have x: "0 < x" by simp
  let ?e = "ulp_exp x"
  have "x < 2 powi (floor_log2 x + 1)" using floor_log2_bounds(2)[OF x] .
  also have "\<dots> \<le> (2::rat) powi (?e + 53)" using x by (subst powi_le_iff) (simp add: ulp_exp_def)
  finally have "x / 2 powi ?e \<le> of_int (2 ^ 53)" by (simp add: power_int_add pos_divide_le_eq)
  then have "round_half_even (x / 2 powi ?e) \<le> 2 ^ 53"
    using round_half_even_mono round_half_even_of_int by metis
  moreover have "0 \<le> round_half_even (x / 2 powi ?e)" using x by (intro round_half_even_nonneg) simp
  ultimately show ?thesis using that[of "round_half_even (x / 2 powi ?e)" ?e] x ulp_exp_ge
    by (simp add: round_rat_def)
qed

lemma round_rat_idem [simp]: "0 \<le> x \<Longrightarrow> round_rat (round_rat x) = round_rat x"
  by (metis round_rat_repr round_rat_exact)

lemma round_rat_scale:
  assumes "0 \<le> x" "round_rat x = x" "0 \<le> k"
  shows "round_rat (x * 2 powi k) = x * 2 powi k"
proof -
  obtain n e where ne: "0 \<le> n" "n \<le> 2 ^ 53" "- 1074 \<le> e" "x = of_int n * 2 powi e"
    using round_rat_repr[OF assms(1)] assms(2) by metis
  then have "x * 2 powi k = of_int n * 2 powi (e + k)" by (simp add: power_int_add)
  then show ?thesis using ne(1-3) assms(3) round_rat_exact[of n "e + k"] by simp
qed

lemma round_rat_error:
  assumes "0 \<le> x" shows "\<bar>round_rat x - x\<bar> \<le> 2 powi (ulp_exp x) / 2"
proof (cases "x = 0")
  case False
  let ?u = "2 powi (ulp_exp x) :: rat"
  have "\<bar>of_int (round_half_even (x / ?u)) - x / ?u\<bar> * ?u \<le> 1 / 2 * ?u"
    by (intro mult_right_mono round_half_even_error) simp
  moreover have "\<bar>of_int (round_half_even (x / ?u)) - x / ?u\<bar> * ?u = \<bar>round_rat x - x\<bar>"
    using False abs_mult_pos[of ?u "of_int (round_half_even (x / ?u)) - x / ?u"]
    by (simp add: round_rat_def left_diff_distrib)
  ultimately show ?thesis by simp
qed simp

text \<open>The blend of two values bounded by a power of two stays within that bound.\<close>

lemma one_minus_rounded:
  assumes "0 < a" "a \<le> 1"
  shows "0 \<le> round_rat (1 - a)" "round_rat (1 - a) \<le> 1" "a + round_rat (1 - a) \<le> 1 + 2 powi (- 53)"
proof -
  show "0 \<le> round_rat (1 - a)" using assms by (intro round_rat_nonneg) simp
  show "round_rat (1 - a) \<le> 1" using round_rat_le_powi[of "1 - a" 0] assms by simp
  show "a + round_rat (1 - a) \<le> 1 + 2 powi (- 53)"
  proof (cases "a = 1")
    case False
    then have x: "0 < 1 - a" "1 - a < 2 powi 0" using assms by auto
    then have "(2::rat) powi (floor_log2 (1 - a)) < 2 powi 0" using floor_log2_bounds(1)[OF x(1)] by linarith
    then have "ulp_exp (1 - a) \<le> - 53" using x by (simp add: ulp_exp_def del: power_int_0_right)
    then have "(2::rat) powi (ulp_exp (1 - a)) \<le> 2 powi (- 53)" by (subst powi_le_iff)
    moreover have "(2::rat) powi (- 53) \<ge> 0" by simp
    ultimately show ?thesis using round_rat_error[of "1 - a"] x by linarith
  qed simp
qed

lemma round_rat_product_le:
  assumes "0 \<le> w" "round_rat w = w" "0 \<le> s" "s \<le> 2 powi k" "0 \<le> k"
  shows "0 \<le> round_rat (w * s)" "round_rat (w * s) \<le> w * 2 powi k"
proof -
  have "w * s \<le> w * 2 powi k" using assms by (intro mult_left_mono)
  then show "round_rat (w * s) \<le> w * 2 powi k"
    using round_rat_mono[of "w * s" "w * 2 powi k"] round_rat_scale[of w k] assms by simp
  show "0 \<le> round_rat (w * s)" using assms by (intro round_rat_nonneg) simp
qed

lemma blend_bound:
  assumes a: "0 < a" "a \<le> 1" "round_rat a = a"
    and s: "0 \<le> s" "s \<le> 2 powi k" and e: "0 \<le> e" "e \<le> 2 powi k" and k: "0 \<le> k"
  shows "0 \<le> round_rat (a * s) + round_rat (round_rat (1 - a) * e)"
    and "round_rat (round_rat (a * s) + round_rat (round_rat (1 - a) * e)) \<le> 2 powi k"
proof -
  note c = one_minus_rounded[OF a(1,2)]
  note p = round_rat_product_le[of a s k] round_rat_product_le[of "round_rat (1 - a)" e k]
  from p(1,3) a s e k c show n: "0 \<le> round_rat (a * s) + round_rat (round_rat (1 - a) * e)" by simp
  have "round_rat (a * s) + round_rat (round_rat (1 - a) * e) \<le> (a + round_rat (1 - a)) * 2 powi k"
    using p(2,4) a s e k c by (simp add: distrib_right)
  also have "\<dots> \<le> (1 + 2 powi (- 53)) * 2 powi k" using c(3) by (rule mult_right_mono) simp
  finally show "round_rat (round_rat (a * s) + round_rat (round_rat (1 - a) * e)) \<le> 2 powi k"
    using n k by (intro round_rat_slack) (auto simp: mult.commute)
qed

text \<open>Rounding a value up to a power of two moves it by at most half a unit in its last place.\<close>

lemma round_rat_error_powi:
  assumes "0 \<le> x" "x \<le> 2 powi k" "- 1000 \<le> k"
  shows "\<bar>round_rat x - x\<bar> \<le> 2 powi (k - 53)"
proof (cases "x = 0")
  case False
  then have x: "0 < x" using assms(1) by simp
  have "floor_log2 x \<le> floor_log2 (2 powi k)" by (rule floor_log2_mono[OF x assms(2)])
  then have "ulp_exp x \<le> k - 52" using x assms(3) by (simp add: ulp_exp_def)
  then have "(2::rat) powi (ulp_exp x) \<le> 2 powi (k - 52)" by (subst powi_le_iff)
  moreover have "(2::rat) powi (k - 52) = 2 powi (k - 53) * 2" using power_int_add_1[of "2::rat" "k - 53"] by simp
  ultimately show ?thesis using round_rat_error[OF assms(1)] by simp
qed simp

text \<open>The four roundings of a blend, together.\<close>

lemma blend_error:
  assumes a: "0 < a" "a \<le> 1" "round_rat a = a"
    and s: "0 \<le> s" "s \<le> 2 powi k" and e: "0 \<le> e" "e \<le> 2 powi k" and k: "0 \<le> k"
  shows "\<bar>round_rat (round_rat (a * s) + round_rat (round_rat (1 - a) * e)) - (a * s + (1 - a) * e)\<bar> \<le> 2 powi (k - 50)"
proof -
  let ?u = "2 powi (k - 53) :: rat" and ?b = "round_rat (1 - a)"
  let ?t = "round_rat (a * s) + round_rat (?b * e)"
  note c = one_minus_rounded[OF a(1,2)]
  note p = round_rat_product_le[of a s k] round_rat_product_le[of ?b e k]
  have b: "round_rat ?b = ?b" using a by simp
  have "\<bar>?b - (1 - a)\<bar> \<le> 2 powi (0 - 53)" using a by (intro round_rat_error_powi) simp_all
  then have "\<bar>?b - (1 - a)\<bar> * e \<le> 2 powi (0 - 53) * 2 powi k" using e by (intro mult_mono) simp_all
  also have "\<dots> = 2 powi (0 - 53 + k)" by (rule power_int_add[symmetric]) simp
  also have "\<dots> = ?u" by simp
  finally have e2: "\<bar>?b * e - (1 - a) * e\<bar> \<le> ?u" using e(1) by (metis abs_mult abs_of_nonneg left_diff_distrib)
  have as: "0 \<le> a * s" "a * s \<le> 2 powi k" using a s mult_mono[of a 1 s "2 powi k"] by simp_all
  have be: "0 \<le> ?b * e" "?b * e \<le> 2 powi k" using c e mult_mono[of ?b 1 e "2 powi k"] by simp_all
  have e1: "\<bar>round_rat (a * s) - a * s\<bar> \<le> ?u" using round_rat_error_powi[OF as] k by simp
  have e3: "\<bar>round_rat (?b * e) - ?b * e\<bar> \<le> ?u" using round_rat_error_powi[OF be] k by simp
  have "?t \<le> (a + ?b) * 2 powi k" using p(2,4) a s e k c b by (simp add: distrib_right)
  also have "\<dots> \<le> 2 * 2 powi k" using c a by (intro mult_right_mono) auto
  finally have t: "?t \<le> 2 powi (k + 1)" by (simp add: power_int_add)
  have "0 \<le> ?t" by (rule blend_bound(1)[OF a s e k])
  from round_rat_error_powi[OF this t] k have "\<bar>round_rat ?t - ?t\<bar> \<le> 2 powi (k + 1 - 53)" by simp
  also have "(2::rat) powi (k + 1 - 53) = 2 * ?u" using power_int_add_1[of "2::rat" "k - 53"] by (simp add: algebra_simps)
  finally have e4: "\<bar>round_rat ?t - ?t\<bar> \<le> 2 * ?u" .
  have "(2::rat) powi (k - 50) = ?u * 2 powi 3" using power_int_add[of "2::rat" "k - 53" 3] by simp
  then have "(2::rat) powi (k - 50) = 8 * ?u" by simp
  moreover have "0 < ?u" by simp
  ultimately show ?thesis using e1 e2 e3 e4 by linarith
qed

text \<open>\<open>alpha * sample + (1 - alpha) * ewma\<close> on finite, non-negative values.\<close>

lemma f64_blend:
  assumes a: "0 < a" "a \<le> 1" "round_rat a = a"
    and s: "0 \<le> s" "s \<le> 2 powi k" and e: "0 \<le> e" "e \<le> 2 powi k" and k: "0 \<le> k" "k \<le> 1000"
  obtains r where "f64_add (f64_mul (Fin a) (Fin s)) (f64_mul (f64_sub (Fin 1) (Fin a)) (Fin e)) = Fin r"
    "0 \<le> r" "r \<le> 2 powi k" "round_rat r = r" "\<bar>r - (a * s + (1 - a) * e)\<bar> \<le> 2 powi (k - 50)"
proof -
  have fl: "fl x = Fin (round_rat x)" if "0 \<le> x" "x \<le> 2 powi (k + 1)" for x
  proof (rule fl_nonneg[OF that(1)])
    have "(2::rat) powi (k + 1) \<le> 2 powi 1023" by (subst powi_le_iff) (use k in simp)
    with that(2) show "x \<le> 2 powi 1023" by (rule order_trans)
  qed
  have big: "x \<le> 2 powi (k + 1)" if "x \<le> 2 powi k" for x :: rat
    using that by (rule order_trans) (subst powi_le_iff, simp)
  have one: "1 \<le> (2::rat) powi (k + 1)" using powi_le_iff[of 0 "k + 1"] k by simp
  note c = one_minus_rounded[OF a(1,2)]
  note p = round_rat_product_le[of a s k] round_rat_product_le[of "round_rat (1 - a)" e k]
  have m1: "f64_mul (Fin a) (Fin s) = Fin (round_rat (a * s))"
    using a s mult_mono[of a 1 s "2 powi k"] by (simp add: fl big)
  have m2: "f64_sub (Fin 1) (Fin a) = Fin (round_rat (1 - a))"
    using a one by (simp add: f64_sub_def fl)
  have m3: "f64_mul (Fin (round_rat (1 - a))) (Fin e) = Fin (round_rat (round_rat (1 - a) * e))"
    using c e mult_mono[of "round_rat (1 - a)" 1 e "2 powi k"] by (simp add: fl big)
  let ?t = "round_rat (a * s) + round_rat (round_rat (1 - a) * e)"
  have "?t \<le> (a + round_rat (1 - a)) * 2 powi k"
    using p(2,4) a s e k c by (simp add: distrib_right)
  also have "\<dots> \<le> 2 * 2 powi k" using c a by (intro mult_right_mono) auto
  finally have "?t \<le> 2 powi (k + 1)" by (simp add: power_int_add)
  then have "f64_add (Fin (round_rat (a * s))) (Fin (round_rat (round_rat (1 - a) * e))) = Fin (round_rat ?t)"
    using blend_bound(1)[OF a s e k(1)] by (simp add: fl)
  then have "f64_add (f64_mul (Fin a) (Fin s)) (f64_mul (f64_sub (Fin 1) (Fin a)) (Fin e)) = Fin (round_rat ?t)"
    by (simp only: m1 m2 m3)
  from that[OF this] show ?thesis
    using blend_bound[OF a s e k(1)] blend_error[OF a s e k(1)] by (simp add: round_rat_nonneg)
qed

lemma fl_of_nat:
  assumes "n \<le> 2 ^ 53"
  shows "fl (of_nat n) = Fin (of_nat n)"
proof -
  have "round_rat (of_int (int n) * 2 powi 0) = of_int (int n) * 2 powi 0"
    using assms by (intro round_rat_exact) auto
  moreover have "(of_nat n :: rat) \<le> 2 powi 1023"
  proof -
    have "(of_nat n :: rat) \<le> of_nat (2 ^ 53)" using assms by (simp only: of_nat_le_iff)
    also have "\<dots> = 2 powi 53" by simp
    also have "\<dots> \<le> (2::rat) powi 1023" by (subst powi_le_iff) simp
    finally show ?thesis .
  qed
  ultimately show ?thesis by (simp add: fl_nonneg)
qed

text \<open>Rounding a given number: the exponent and the nearest integer multiple of the last place.\<close>

lemma round_half_even_near: "\<bar>x - of_int n\<bar> < 1 / 2 \<Longrightarrow> round_half_even x = n"
  using round_half_even_error[of x]
proof -
  assume a: "\<bar>x - of_int n\<bar> < 1 / 2"
  have "\<bar>(of_int (round_half_even x) :: rat) - of_int n\<bar> < 1"
    using a round_half_even_error[of x] by linarith
  then have "\<bar>(of_int (round_half_even x - n) :: rat)\<bar> < 1" by simp
  then show ?thesis by linarith
qed

lemma round_rat_near:
  assumes "2 powi e \<le> x" "x < 2 powi (e + 1)" "- 1022 \<le> e" "\<bar>x / 2 powi (e - 52) - of_int n\<bar> < 1 / 2"
  shows "round_rat x = of_int n * 2 powi (e - 52)"
proof -
  have x: "0 < x" using assms(1) powi_pos[of e] by linarith
  have "2 powi e < (2::rat) powi (floor_log2 x + 1)" "2 powi (floor_log2 x) < (2::rat) powi (e + 1)"
    using floor_log2_bounds[OF x] assms(1,2) by linarith+
  then have "floor_log2 x = e" by simp
  then have "ulp_exp x = e - 52" using x assms(3) by (simp add: ulp_exp_def)
  then show ?thesis using x round_half_even_near[OF assms(4)] by (simp add: round_rat_def)
qed

lemma fl_small: "0 \<le> x \<Longrightarrow> x \<le> 1000000 \<Longrightarrow> fl x = Fin (round_rat x)"
proof (rule fl_nonneg)
  assume "x \<le> 1000000"
  also have "(1000000 :: rat) \<le> 2 powi 20" by simp
  also have "\<dots> \<le> (2::rat) powi 1023" by (subst powi_le_iff) simp
  finally show "x \<le> 2 powi 1023" .
qed simp

end
