(* ===== verification/Config.thy ===== *)
theory Config
  imports F64
begin

text \<open>
  \<open>src/config.rs\<close>: the configuration model.  Raw configuration (what the TOML file says) and
  resolved configuration are records; every load-time error is a constructor of
  \<open>config_error\<close>; \<open>from_toml_str\<close> performs the checks in the order of the source.  The TOML
  parser, the socket-address parser, the process environment and the file system are
  arguments.
\<close>

section \<open>Data\<close>

datatype privacy = Local | External

datatype secret = Secret string

fun expose :: "secret \<Rightarrow> string" where
  "expose (Secret s) = s"

fun secret_debug :: "secret \<Rightarrow> string" where
  "secret_debug (Secret s) = ''Secret(<redacted>)''"

record backend =
  be_name :: string
  be_base_url :: string
  be_api_key :: "secret option"
  be_models :: "string list"
  be_capability_tags :: "string list"
  be_privacy :: privacy

definition serves_model :: "backend \<Rightarrow> string \<Rightarrow> bool" where
  "serves_model b model = list_ex (\<lambda>m. m = model) (be_models b)"

definition has_capability_tags :: "backend \<Rightarrow> string list \<Rightarrow> bool" where
  "has_capability_tags b required =
     list_all (\<lambda>t. list_ex (\<lambda>c. c = t) (be_capability_tags b)) required"

record virtual_key =
  vk_name :: string
  vk_key :: secret
  vk_enforce_private :: bool

datatype policy_selection = StaticPriority | EwmaLatency f64

record 'addr gateway_config =
  cfg_listen :: 'addr
  cfg_backends :: "backend list"
  cfg_virtual_keys :: "virtual_key list"
  cfg_policy :: policy_selection

text \<open>\<open>Io\<close> and \<open>Parse\<close> carry the message of the underlying error.\<close>

datatype config_error =
    NotFound string
  | Io string string
  | Parse string
  | InvalidListen string
  | NoBackends
  | EmptyBackendName
  | DuplicateBackend string
  | InvalidEnvName string string string
  | MissingEnv string string string
  | InvalidBaseUrl string string
  | NoModels string
  | EmptyEntry string string
  | EmptyVirtualKeyName
  | DuplicateVirtualKey string
  | InvalidKeyEnvName string string
  | MissingKeyEnv string string
  | EmptyVirtualKey string
  | DuplicateVirtualKeySecret string string
  | InvalidAlpha f64

text \<open>\<open>Display\<close>; \<open>show_f64\<close> prints the rejected blending factor.\<close>

definition em_dash :: string where
  "em_dash = [CHR 0xE2, CHR 0x80, CHR 0x94]"

definition quoted :: "string \<Rightarrow> string" where
  "quoted s = ''`'' @ s @ ''`''"

fun show_config_error :: "(f64 \<Rightarrow> string) \<Rightarrow> config_error \<Rightarrow> string" where
  "show_config_error show_f64 (NotFound path) =
     ''config file not found at '' @ quoted path @ '' (set PATCHBAY_CONFIG or create patchbay.toml)''"
| "show_config_error show_f64 (Io path source) = ''cannot read config file '' @ quoted path @ '': '' @ source"
| "show_config_error show_f64 (Parse msg) = ''invalid TOML: '' @ msg"
| "show_config_error show_f64 (InvalidListen addr) =
     ''invalid listen address '' @ quoted addr @ '': invalid socket address syntax''"
| "show_config_error show_f64 NoBackends =
     ''config defines no backends '' @ em_dash @ '' at least one [[backends]] entry is required''"
| "show_config_error show_f64 EmptyBackendName = ''backend name must not be empty''"
| "show_config_error show_f64 (DuplicateBackend name) = ''duplicate backend name '' @ quoted name"
| "show_config_error show_f64 (InvalidEnvName name field value) =
     ''backend '' @ quoted name @ '': '' @ quoted field @ '' is not a valid environment variable name: '' @ quoted value"
| "show_config_error show_f64 (MissingEnv name field var) =
     ''backend '' @ quoted name @ '': environment variable '' @ quoted var @ '' (from '' @ quoted field @ '') is not set''"
| "show_config_error show_f64 (InvalidBaseUrl name url) =
     ''backend '' @ quoted name @ '': base URL '' @ quoted url @ '' must start with http:// or https://''"
| "show_config_error show_f64 (NoModels name) =
     ''backend '' @ quoted name @ '': `models` must list at least one model''"
| "show_config_error show_f64 (EmptyEntry name field) =
     ''backend '' @ quoted name @ '': '' @ quoted field @ '' contains an empty string''"
| "show_config_error show_f64 EmptyVirtualKeyName = ''virtual key name must not be empty''"
| "show_config_error show_f64 (DuplicateVirtualKey name) = ''duplicate virtual key name '' @ quoted name"
| "show_config_error show_f64 (InvalidKeyEnvName name value) =
     ''virtual key '' @ quoted name @ '': `key_env` is not a valid environment variable name: '' @ quoted value"
| "show_config_error show_f64 (MissingKeyEnv name var) =
     ''virtual key '' @ quoted name @ '': environment variable '' @ quoted var @ '' is not set''"
| "show_config_error show_f64 (EmptyVirtualKey name) =
     ''virtual key '' @ quoted name @ '': resolved key is empty''"
| "show_config_error show_f64 (DuplicateVirtualKeySecret prev name) =
     ''virtual keys '' @ quoted prev @ '' and '' @ quoted name @ '' resolve to the same secret''"
| "show_config_error show_f64 (InvalidAlpha alpha) =
     ''policy `ewma_latency`: alpha must be in (0, 1], got '' @ show_f64 alpha"

record raw_backend =
  rb_name :: string
  rb_base_url_env :: string
  rb_api_key_env :: "string option"
  rb_models :: "string list"
  rb_capability_tags :: "string list"
  rb_privacy :: privacy

record raw_virtual_key =
  rv_name :: string
  rv_key_env :: string
  rv_enforce_private :: bool

datatype raw_policy = RawStaticPriority | RawEwmaLatency f64

record raw_config =
  raw_listen :: string
  raw_backends :: "raw_backend list"
  raw_virtual_keys :: "raw_virtual_key list"
  raw_policy :: raw_policy

definition default_listen :: string where
  "default_listen = ''0.0.0.0:8080''"

definition default_alpha :: f64 where
  "default_alpha = fl (3 / 10)"

section \<open>Environment variable names\<close>

definition is_ascii_alphabetic :: "char \<Rightarrow> bool" where
  "is_ascii_alphabetic c = (let n = of_char c :: nat in (65 \<le> n \<and> n \<le> 90) \<or> (97 \<le> n \<and> n \<le> 122))"

definition is_ascii_alphanumeric :: "char \<Rightarrow> bool" where
  "is_ascii_alphanumeric c = (is_ascii_alphabetic c \<or> (let n = of_char c :: nat in 48 \<le> n \<and> n \<le> 57))"

fun is_valid_env_name :: "string \<Rightarrow> bool" where
  "is_valid_env_name [] = False"
| "is_valid_env_name (c # cs) =
     ((is_ascii_alphabetic c \<or> c = CHR ''_'') \<and>
      list_all (\<lambda>d. is_ascii_alphanumeric d \<or> d = CHR ''_'') cs)"

section \<open>Resolution and validation\<close>

type_synonym env = "string \<Rightarrow> string option"

definition is_http_url :: "string \<Rightarrow> bool" where
  "is_http_url u = (starts_with ''http://'' u \<or> starts_with ''https://'' u)"

definition resolve_base_url :: "env \<Rightarrow> raw_backend \<Rightarrow> config_error + string" where
  "resolve_base_url env b =
     and_then (ensure_that (is_valid_env_name (rb_base_url_env b))
       (InvalidEnvName (rb_name b) ''base_url_env'' (rb_base_url_env b))) (\<lambda>_.
     and_then (ok_or (env (rb_base_url_env b))
       (MissingEnv (rb_name b) ''base_url_env'' (rb_base_url_env b))) (\<lambda>base_url.
     and_then (ensure_that (is_http_url base_url) (InvalidBaseUrl (rb_name b) base_url)) (\<lambda>_.
     Inr base_url)))"

definition resolve_api_key :: "env \<Rightarrow> raw_backend \<Rightarrow> config_error + secret option" where
  "resolve_api_key env b = (case rb_api_key_env b of
       None \<Rightarrow> Inr None
     | Some var \<Rightarrow>
         and_then (ensure_that (is_valid_env_name var)
           (InvalidEnvName (rb_name b) ''api_key_env'' var)) (\<lambda>_.
         and_then (ok_or (env var) (MissingEnv (rb_name b) ''api_key_env'' var)) (\<lambda>key.
         Inr (Some (Secret key)))))"

definition resolve_backend :: "env \<Rightarrow> raw_backend \<Rightarrow> config_error + backend" where
  "resolve_backend env b =
     and_then (resolve_base_url env b) (\<lambda>base_url.
     and_then (resolve_api_key env b) (\<lambda>api_key.
     and_then (ensure_that (rb_models b \<noteq> []) (NoModels (rb_name b))) (\<lambda>_.
     and_then (ensure_that (\<not> list_ex (\<lambda>m. m = []) (rb_models b))
       (EmptyEntry (rb_name b) ''models'')) (\<lambda>_.
     and_then (ensure_that (\<not> list_ex (\<lambda>t. t = []) (rb_capability_tags b))
       (EmptyEntry (rb_name b) ''capability_tags'')) (\<lambda>_.
     Inr \<lparr>be_name = rb_name b, be_base_url = trim_end_matches CHR ''/'' base_url,
          be_api_key = api_key, be_models = rb_models b,
          be_capability_tags = rb_capability_tags b, be_privacy = rb_privacy b\<rparr>)))))"

text \<open>The backend loop; \<open>names\<close> is the set of the names seen so far.\<close>

fun resolve_backends :: "env \<Rightarrow> string set \<Rightarrow> raw_backend list \<Rightarrow> config_error + backend list" where
  "resolve_backends env names [] = Inr []"
| "resolve_backends env names (b # bs) =
     and_then (ensure_that (rb_name b \<noteq> []) EmptyBackendName) (\<lambda>_.
     and_then (ensure_that (rb_name b \<notin> names) (DuplicateBackend (rb_name b))) (\<lambda>_.
     and_then (resolve_backend env b) (\<lambda>r.
     and_then (resolve_backends env (insert (rb_name b) names) bs) (\<lambda>rs.
     Inr (r # rs)))))"

text \<open>The virtual-key loop; \<open>secrets\<close> maps each resolved secret to the key that introduced it.\<close>

fun resolve_virtual_keys ::
  "env \<Rightarrow> string set \<Rightarrow> (string \<rightharpoonup> string) \<Rightarrow> raw_virtual_key list \<Rightarrow> config_error + virtual_key list" where
  "resolve_virtual_keys env names secrets [] = Inr []"
| "resolve_virtual_keys env names secrets (vk # vks) =
     and_then (ensure_that (rv_name vk \<noteq> []) EmptyVirtualKeyName) (\<lambda>_.
     and_then (ensure_that (rv_name vk \<notin> names) (DuplicateVirtualKey (rv_name vk))) (\<lambda>_.
     and_then (ensure_that (is_valid_env_name (rv_key_env vk))
       (InvalidKeyEnvName (rv_name vk) (rv_key_env vk))) (\<lambda>_.
     and_then (ok_or (env (rv_key_env vk)) (MissingKeyEnv (rv_name vk) (rv_key_env vk))) (\<lambda>key.
     and_then (ensure_that (key \<noteq> []) (EmptyVirtualKey (rv_name vk))) (\<lambda>_.
     case secrets key of
       Some prev \<Rightarrow> Inl (DuplicateVirtualKeySecret prev (rv_name vk))
     | None \<Rightarrow>
         and_then (resolve_virtual_keys env (insert (rv_name vk) names)
           (secrets(key \<mapsto> rv_name vk)) vks) (\<lambda>rs.
         Inr (\<lparr>vk_name = rv_name vk, vk_key = Secret key,
               vk_enforce_private = rv_enforce_private vk\<rparr> # rs)))))))"

fun resolve_policy :: "raw_policy \<Rightarrow> config_error + policy_selection" where
  "resolve_policy RawStaticPriority = Inr StaticPriority"
| "resolve_policy (RawEwmaLatency alpha) =
     and_then (ensure_that (f64_gt alpha (Fin 0) \<and> f64_le alpha (Fin 1)) (InvalidAlpha alpha)) (\<lambda>_.
     Inr (EwmaLatency alpha))"

definition from_toml_str ::
  "(string \<Rightarrow> string + raw_config) \<Rightarrow> (string \<Rightarrow> 'addr option) \<Rightarrow> string \<Rightarrow> env
     \<Rightarrow> config_error + 'addr gateway_config" where
  "from_toml_str toml_parse parse_addr text env =
     (case toml_parse text of Inl msg \<Rightarrow> Inl (Parse msg) | Inr raw \<Rightarrow>
     and_then (ok_or (parse_addr (raw_listen raw)) (InvalidListen (raw_listen raw))) (\<lambda>listen.
     and_then (ensure_that (raw_backends raw \<noteq> []) NoBackends) (\<lambda>_.
     and_then (resolve_backends env {} (raw_backends raw)) (\<lambda>backends.
     and_then (resolve_virtual_keys env {} Map.empty (raw_virtual_keys raw)) (\<lambda>virtual_keys.
     and_then (resolve_policy (raw_policy raw)) (\<lambda>policy.
     Inr \<lparr>cfg_listen = listen, cfg_backends = backends, cfg_virtual_keys = virtual_keys,
          cfg_policy = policy\<rparr>))))))"

text \<open>
  \<open>load\<close>: the path comes from \<open>PATCHBAY_CONFIG\<close>; \<open>fs\<close> gives for a path nothing (it does not
  exist), a read error, or the text.
\<close>

definition load ::
  "(string \<Rightarrow> string + raw_config) \<Rightarrow> (string \<Rightarrow> 'addr option) \<Rightarrow> env
     \<Rightarrow> (string \<Rightarrow> (string + string) option) \<Rightarrow> config_error + 'addr gateway_config" where
  "load toml_parse parse_addr env fs =
     (let path = (case env ''PATCHBAY_CONFIG'' of None \<Rightarrow> ''patchbay.toml'' | Some p \<Rightarrow> p)
      in case fs path of
           None \<Rightarrow> Inl (NotFound path)
         | Some (Inl e) \<Rightarrow> Inl (Io path e)
         | Some (Inr text) \<Rightarrow> from_toml_str toml_parse parse_addr text env)"

section \<open>What a valid configuration is\<close>

definition backend_valid :: "env \<Rightarrow> raw_backend \<Rightarrow> bool" where
  "backend_valid env b \<longleftrightarrow>
     is_valid_env_name (rb_base_url_env b) \<and>
     (case env (rb_base_url_env b) of None \<Rightarrow> False | Some u \<Rightarrow> is_http_url u) \<and>
     (case rb_api_key_env b of None \<Rightarrow> True | Some v \<Rightarrow> is_valid_env_name v \<and> env v \<noteq> None) \<and>
     rb_models b \<noteq> [] \<and> [] \<notin> set (rb_models b) \<and> [] \<notin> set (rb_capability_tags b)"

definition resolved_backend :: "env \<Rightarrow> raw_backend \<Rightarrow> backend" where
  "resolved_backend env b =
     \<lparr>be_name = rb_name b,
      be_base_url = trim_end_matches CHR ''/'' (the (env (rb_base_url_env b))),
      be_api_key = (case rb_api_key_env b of None \<Rightarrow> None | Some v \<Rightarrow> map_option Secret (env v)),
      be_models = rb_models b, be_capability_tags = rb_capability_tags b, be_privacy = rb_privacy b\<rparr>"

definition virtual_key_valid :: "env \<Rightarrow> raw_virtual_key \<Rightarrow> bool" where
  "virtual_key_valid env vk \<longleftrightarrow>
     is_valid_env_name (rv_key_env vk) \<and>
     (case env (rv_key_env vk) of None \<Rightarrow> False | Some k \<Rightarrow> k \<noteq> [])"

definition resolved_virtual_key :: "env \<Rightarrow> raw_virtual_key \<Rightarrow> virtual_key" where
  "resolved_virtual_key env vk =
     \<lparr>vk_name = rv_name vk, vk_key = Secret (the (env (rv_key_env vk))),
      vk_enforce_private = rv_enforce_private vk\<rparr>"

fun policy_valid :: "raw_policy \<Rightarrow> bool" where
  "policy_valid RawStaticPriority = True"
| "policy_valid (RawEwmaLatency a) = (\<exists>x. a = Fin x \<and> 0 < x \<and> x \<le> 1)"

fun resolved_policy :: "raw_policy \<Rightarrow> policy_selection" where
  "resolved_policy RawStaticPriority = StaticPriority"
| "resolved_policy (RawEwmaLatency a) = EwmaLatency a"

definition config_valid :: "env \<Rightarrow> raw_config \<Rightarrow> bool" where
  "config_valid env raw \<longleftrightarrow>
     raw_backends raw \<noteq> [] \<and>
     list_all (\<lambda>b. rb_name b \<noteq> [] \<and> backend_valid env b) (raw_backends raw) \<and>
     distinct (map rb_name (raw_backends raw)) \<and>
     list_all (\<lambda>vk. rv_name vk \<noteq> [] \<and> virtual_key_valid env vk) (raw_virtual_keys raw) \<and>
     distinct (map rv_name (raw_virtual_keys raw)) \<and>
     distinct (map (\<lambda>vk. env (rv_key_env vk)) (raw_virtual_keys raw)) \<and>
     policy_valid (raw_policy raw)"

definition resolved_config :: "env \<Rightarrow> raw_config \<Rightarrow> 'addr \<Rightarrow> 'addr gateway_config" where
  "resolved_config env raw listen =
     \<lparr>cfg_listen = listen,
      cfg_backends = map (resolved_backend env) (raw_backends raw),
      cfg_virtual_keys = map (resolved_virtual_key env) (raw_virtual_keys raw),
      cfg_policy = resolved_policy (raw_policy raw)\<rparr>"

section \<open>The loops decide validity\<close>

lemma list_ex_eq_iff: "list_ex (\<lambda>x. x = y) xs \<longleftrightarrow> y \<in> set xs"
  by (auto simp: list_ex_iff)

lemma resolve_backend_Inr_iff:
  "resolve_backend env b = Inr r \<longleftrightarrow> backend_valid env b \<and> r = resolved_backend env b"
  by (auto simp: resolve_backend_def resolve_base_url_def resolve_api_key_def result_simps
      backend_valid_def resolved_backend_def list_ex_eq_iff split: option.splits)

lemma resolve_backends_Inr_iff:
  "resolve_backends env names bs = Inr rs \<longleftrightarrow>
     list_all (\<lambda>b. rb_name b \<noteq> [] \<and> rb_name b \<notin> names \<and> backend_valid env b) bs \<and>
     distinct (map rb_name bs) \<and> rs = map (resolved_backend env) bs"
proof (induction bs arbitrary: names rs)
  case (Cons b bs)
  show ?case
    by (auto simp: result_simps resolve_backend_Inr_iff Cons.IH list_all_iff image_iff)
qed auto

lemma virtual_key_valid_iff:
  "virtual_key_valid env vk \<longleftrightarrow>
     is_valid_env_name (rv_key_env vk) \<and> (\<exists>k. env (rv_key_env vk) = Some k \<and> k \<noteq> [])"
  by (auto simp: virtual_key_valid_def split: option.splits)

lemma resolve_virtual_keys_Inr_iff:
  "resolve_virtual_keys env names secrets vks = Inr rs \<longleftrightarrow>
     list_all (\<lambda>vk. rv_name vk \<noteq> [] \<and> rv_name vk \<notin> names \<and> is_valid_env_name (rv_key_env vk) \<and>
        (\<exists>k. env (rv_key_env vk) = Some k \<and> k \<noteq> [] \<and> secrets k = None)) vks \<and>
     distinct (map rv_name vks) \<and> distinct (map (\<lambda>vk. env (rv_key_env vk)) vks) \<and>
     rs = map (resolved_virtual_key env) vks"
proof (induction vks arbitrary: names secrets rs)
  case (Cons vk vks)
  show ?case
  proof (cases "env (rv_key_env vk)")
    case (Some key)
    have head: "resolved_virtual_key env vk =
        \<lparr>vk_name = rv_name vk, vk_key = Secret key, vk_enforce_private = rv_enforce_private vk\<rparr>"
      using Some by (simp add: resolved_virtual_key_def)
    have fresh: "(\<exists>k. x = Some k \<and> k \<noteq> [] \<and> (secrets(key \<mapsto> n)) k = None) \<longleftrightarrow>
        (\<exists>k. x = Some k \<and> k \<noteq> [] \<and> secrets k = None) \<and> x \<noteq> Some key" for x n
      by auto
    show ?thesis
      using Some by (auto simp: result_simps Cons.IH list_all_iff head fresh image_iff
          simp del: fun_upd_apply split: option.splits)
  qed (auto simp: result_simps)
qed auto

lemma resolve_policy_Inr_iff:
  "resolve_policy p = Inr q \<longleftrightarrow> policy_valid p \<and> q = resolved_policy p"
  by (cases p) (auto simp: result_simps f64_in_unit_interval)

lemma from_toml_str_Inr_iff:
  "from_toml_str toml_parse parse_addr text env = Inr cfg \<longleftrightarrow>
     (\<exists>raw listen. toml_parse text = Inr raw \<and> parse_addr (raw_listen raw) = Some listen \<and>
        config_valid env raw \<and> cfg = resolved_config env raw listen)"
  by (auto simp: from_toml_str_def result_simps resolve_backends_Inr_iff
      resolve_virtual_keys_Inr_iff resolve_policy_Inr_iff config_valid_def resolved_config_def
      list_all_iff virtual_key_valid_iff split: sum.splits)

section \<open>Well-formed configurations\<close>

definition wf_backend :: "backend \<Rightarrow> bool" where
  "wf_backend b \<longleftrightarrow>
     be_name b \<noteq> [] \<and> be_models b \<noteq> [] \<and> [] \<notin> set (be_models b) \<and>
     [] \<notin> set (be_capability_tags b) \<and>
     (is_http_url (be_base_url b) \<or> be_base_url b = ''http:'' \<or> be_base_url b = ''https:'') \<and>
     (be_base_url b = [] \<or> last (be_base_url b) \<noteq> CHR ''/'')"

definition wf_virtual_key :: "virtual_key \<Rightarrow> bool" where
  "wf_virtual_key vk \<longleftrightarrow> vk_name vk \<noteq> [] \<and> expose (vk_key vk) \<noteq> []"

fun wf_policy :: "policy_selection \<Rightarrow> bool" where
  "wf_policy StaticPriority = True"
| "wf_policy (EwmaLatency a) = (f64_gt a (Fin 0) \<and> f64_le a (Fin 1))"

definition wf_config :: "'addr gateway_config \<Rightarrow> bool" where
  "wf_config cfg \<longleftrightarrow>
     cfg_backends cfg \<noteq> [] \<and> list_all wf_backend (cfg_backends cfg) \<and>
     distinct (map be_name (cfg_backends cfg)) \<and>
     list_all wf_virtual_key (cfg_virtual_keys cfg) \<and>
     distinct (map vk_name (cfg_virtual_keys cfg)) \<and>
     distinct (map (expose \<circ> vk_key) (cfg_virtual_keys cfg)) \<and>
     wf_policy (cfg_policy cfg)"

lemma trim_end_matches_append_replicate:
  assumes "t = [] \<or> last t \<noteq> c" and "set us \<subseteq> {c}"
  shows "trim_end_matches c (t @ us) = t"
proof -
  have "dropWhile (\<lambda>x. x = c) (rev us @ rev t) = dropWhile (\<lambda>x. x = c) (rev t)"
    using assms(2) by (intro dropWhile_append2) auto
  also have "\<dots> = rev t"
    using assms(1) by (cases t rule: rev_cases) auto
  finally show ?thesis by (simp add: trim_end_matches_def)
qed

lemma trim_prefix_cases:
  assumes "starts_with p u"
  shows "starts_with p (trim_end_matches c u) \<or> trim_end_matches c u = trim_end_matches c p"
proof -
  let ?t = "trim_end_matches c u"
  obtain r where r: "u = p @ r" using assms by (rule starts_withE)
  obtain n where n: "u = ?t @ replicate n c" by (rule exE[OF trim_end_matches_decomp])
  have t: "?t = [] \<or> last ?t \<noteq> c" using trim_end_matches_last[of c u] by blast
  have "?t @ replicate n c = p @ r" by (rule trans[OF n[symmetric] r])
  then consider us where "?t = p @ us" | us where "p = ?t @ us" "us @ r = replicate n c"
    by (auto simp: append_eq_append_conv2)
  then show ?thesis
  proof cases
    case 1
    then show ?thesis by simp
  next
    case 2
    have "set us \<subseteq> set (us @ r)" by simp
    also have "\<dots> \<subseteq> {c}" unfolding 2(2) by auto
    finally have "trim_end_matches c p = ?t"
      unfolding 2(1) by (rule trim_end_matches_append_replicate[OF t])
    then show ?thesis by simp
  qed
qed

lemma normalised_url:
  assumes "is_http_url u" 
  shows "is_http_url (trim_end_matches CHR ''/'' u) \<or>
    trim_end_matches CHR ''/'' u = ''http:'' \<or> trim_end_matches CHR ''/'' u = ''https:''"
proof -
  have "trim_end_matches CHR ''/'' ''http://'' = ''http:''" "trim_end_matches CHR ''/'' ''https://'' = ''https:''"
    by (simp_all add: trim_end_matches_def)
  then show ?thesis
    using assms trim_prefix_cases unfolding is_http_url_def by metis
qed

lemma wf_resolved_backend:
  "rb_name b \<noteq> [] \<Longrightarrow> backend_valid env b \<Longrightarrow> wf_backend (resolved_backend env b)"
  by (auto simp: backend_valid_def wf_backend_def resolved_backend_def trim_end_matches_last
      split: option.splits dest: normalised_url)

lemma wf_resolved_config:
  assumes "config_valid env raw"
  shows "wf_config (resolved_config env raw listen)"
proof -
  have keys: "map (expose \<circ> vk_key) (map (resolved_virtual_key env) vks) = map (\<lambda>vk. the (env (rv_key_env vk))) vks" for vks
    by (simp add: resolved_virtual_key_def)
  have some: "virtual_key_valid env vk \<Longrightarrow> env (rv_key_env vk) = Some (the (env (rv_key_env vk)))" for vk
    by (auto simp: virtual_key_valid_iff)
  have "distinct (map (\<lambda>vk. the (env (rv_key_env vk))) vks)"
    if "distinct (map (\<lambda>vk. env (rv_key_env vk)) vks)" "list_all (virtual_key_valid env) vks" for vks
    using that by (induction vks) (force simp: list_all_iff virtual_key_valid_iff)+
  with assms have "distinct (map (expose \<circ> vk_key) (map (resolved_virtual_key env) (raw_virtual_keys raw)))"
    unfolding keys by (simp add: config_valid_def list_all_iff)
  moreover have "policy_valid p \<Longrightarrow> wf_policy (resolved_policy p)" for p
    by (cases p) (auto simp: f64_in_unit_interval)
  moreover have "map be_name (map (resolved_backend env) bs) = map rb_name bs" for bs
    by (simp add: resolved_backend_def)
  moreover have "map vk_name (map (resolved_virtual_key env) vks) = map rv_name vks" for vks
    by (simp add: resolved_virtual_key_def)
  moreover have "wf_virtual_key (resolved_virtual_key env vk)" if "rv_name vk \<noteq> []" "virtual_key_valid env vk" for vk
    using that by (auto simp: wf_virtual_key_def resolved_virtual_key_def virtual_key_valid_iff)
  ultimately show ?thesis
    using assms unfolding wf_config_def config_valid_def resolved_config_def
    by (simp del: map_map add: list_all_iff wf_resolved_backend)
qed

lemma load_Inr_iff:
  "load toml_parse parse_addr env fs = Inr cfg \<longleftrightarrow>
     (\<exists>text raw listen.
        fs (case env ''PATCHBAY_CONFIG'' of None \<Rightarrow> ''patchbay.toml'' | Some p \<Rightarrow> p) = Some (Inr text) \<and>
        toml_parse text = Inr raw \<and> parse_addr (raw_listen raw) = Some listen \<and>
        config_valid env raw \<and> cfg = resolved_config env raw listen)"
  by (auto simp: load_def Let_def from_toml_str_Inr_iff split: option.splits sum.splits)

lemma resolve_backends_append:
  assumes "resolve_backends env names xs = Inr rs"
  shows "resolve_backends env names (xs @ ys) =
    and_then (resolve_backends env (names \<union> rb_name ` set xs) ys) (\<lambda>ss. Inr (rs @ ss))"
  using assms
proof (induction xs arbitrary: names rs)
  case Nil
  then show ?case by (cases "resolve_backends env names ys") auto
next
  case (Cons x xs)
  then obtain r ss where x: "rb_name x \<noteq> []" "rb_name x \<notin> names" "resolve_backend env x = Inr r"
    and xs: "resolve_backends env (insert (rb_name x) names) xs = Inr ss" and rs: "rs = r # ss"
    by (auto simp: result_simps)
  show ?case
    using x Cons.IH[OF xs] by (cases "resolve_backends env (names \<union> rb_name ` set (x # xs)) ys") (auto simp: rs)
qed

section \<open>A sample configuration\<close>

text \<open>
  Two local and one external backend and two virtual keys; the theorems below and those of the
  components built from a configuration are instantiated on it.
\<close>

definition sample_env :: env where
  "sample_env = map_of [(''LLM'', ''http://h/''), (''OAI'', ''https://o''), (''OK'', ''sk''),
     (''KA'', ''secret-a''), (''KB'', ''secret-b'')]"

definition sample_raw :: raw_config where
  "sample_raw = \<lparr>raw_listen = ''0.0.0.0:8080'',
     raw_backends =
       [\<lparr>rb_name = ''oai'', rb_base_url_env = ''OAI'', rb_api_key_env = Some ''OK'',
         rb_models = [''m''], rb_capability_tags = [''general''], rb_privacy = External\<rparr>,
        \<lparr>rb_name = ''llm'', rb_base_url_env = ''LLM'', rb_api_key_env = None,
         rb_models = [''m'', ''q''], rb_capability_tags = [], rb_privacy = Local\<rparr>],
     raw_virtual_keys =
       [\<lparr>rv_name = ''a'', rv_key_env = ''KA'', rv_enforce_private = True\<rparr>,
        \<lparr>rv_name = ''b'', rv_key_env = ''KB'', rv_enforce_private = False\<rparr>],
     raw_policy = RawStaticPriority\<rparr>"

definition sample_fs :: "string \<Rightarrow> (string + string) option" where
  "sample_fs = map_of [(''patchbay.toml'', Inr ''text'')]"

lemmas sample_defs = sample_env_def sample_raw_def sample_fs_def

lemma sample_raw_valid: "config_valid sample_env sample_raw"
  by (simp add: config_valid_def sample_defs backend_valid_def virtual_key_valid_def is_http_url_def
      starts_with_def is_ascii_alphabetic_def is_ascii_alphanumeric_def)

lemma sample_loads:
  "load (\<lambda>_. Inr sample_raw) (\<lambda>_. Some ()) sample_env sample_fs =
     Inr (resolved_config sample_env sample_raw ())"
  using sample_raw_valid by (simp add: load_Inr_iff sample_env_def sample_fs_def)

section \<open>Properties\<close>

text \<open>C9: Loading succeeds exactly on the readable, parseable and valid configurations (names
  non-empty and pairwise distinct, environment names well formed and set, URLs with an http
  scheme, model lists non-empty, resolved key secrets non-empty and pairwise distinct, the
  blending factor in (0, 1]), and the result is the raw configuration resolved entry by
  entry, in file order.\<close>

theorem load_exact:
  "(load toml_parse parse_addr env fs = Inr cfg) =
     (\<exists>path text raw listen.
        path = (case env ''PATCHBAY_CONFIG'' of None \<Rightarrow> ''patchbay.toml'' | Some p \<Rightarrow> p) \<and>
        fs path = Some (Inr text) \<and> toml_parse text = Inr raw \<and>
        parse_addr (raw_listen raw) = Some listen \<and> config_valid env raw \<and>
        cfg = resolved_config env raw listen)"
  by (simp add: load_Inr_iff)

text \<open>Every configuration that loads is coherent: at least one backend, unique non-empty
  names, non-empty model lists without empty entries, base URLs without a trailing slash,
  virtual keys with unique names and unique non-empty secrets, and a blending factor the EWMA
  constructor accepts.\<close>

theorem loaded_config_wf:
  assumes "load toml_parse parse_addr env fs = Inr cfg"
  shows "wf_config cfg"
  using assms by (auto simp: load_Inr_iff wf_resolved_config)

theorem loaded_config_wf_witness:
  "wf_config (resolved_config sample_env sample_raw ())"
  by (rule loaded_config_wf[OF sample_loads])

text \<open>The backend loop reports the first offending entry: when every earlier entry resolves
  and the next one fails its own checks, the error of that entry is the result, whatever
  follows it.\<close>

theorem resolve_backends_first_error:
  assumes "resolve_backends env {} xs = Inr rs"
    and "rb_name b \<noteq> []" and "rb_name b \<notin> rb_name ` set xs"
    and "resolve_backend env b = Inl e"
  shows "resolve_backends env {} (xs @ b # ys) = Inl e"
  using assms by (simp add: resolve_backends_append)

theorem resolve_backends_first_error_witness:
  "resolve_backends sample_env {} ([] @ \<lparr>rb_name = ''x'', rb_base_url_env = ''9'', rb_api_key_env = None,
      rb_models = [], rb_capability_tags = [], rb_privacy = Local\<rparr> # [])
    = Inl (InvalidEnvName ''x'' ''base_url_env'' ''9'')"
  by (rule resolve_backends_first_error[where rs = "[]"])
    (simp_all add: resolve_backend_def resolve_base_url_def is_ascii_alphabetic_def)

text \<open>A backend whose URL variable holds the bare scheme "http://" passes validation and is
  stored with the base URL "http:", which is no longer an http URL: normalisation runs after
  the check.\<close>

theorem bare_scheme_url_accepted:
  "resolve_backend (\<lambda>_. Some ''http://'')
     \<lparr>rb_name = ''b'', rb_base_url_env = ''U'', rb_api_key_env = None, rb_models = [''m''],
      rb_capability_tags = [], rb_privacy = Local\<rparr>
   = Inr \<lparr>be_name = ''b'', be_base_url = ''http:'', be_api_key = None, be_models = [''m''],
          be_capability_tags = [], be_privacy = Local\<rparr>
   \<and> \<not> is_http_url ''http:''"
  by (simp add: resolve_backend_def resolve_base_url_def resolve_api_key_def is_http_url_def
      starts_with_def trim_end_matches_def is_ascii_alphabetic_def)

end
