(* ===== verification/Routing.thy ===== *)
theory Routing
  imports Config
begin

text \<open>
  \<open>src/router.rs\<close>: classification of a query, the filter that builds the candidate list, the
  routing policies and the routing facade.  The uninhabited marker types \<open>Private\<close> and
  \<open>Shareable\<close> become the two values of \<open>privacy_class\<close>: a definition that is generic in the
  class takes it as a value.  A policy object is one of the two policies of the crate or any
  other implementation of the trait, an arbitrary function from the candidates to an index.
\<close>

section \<open>Privacy classes and queries\<close>

datatype privacy_class = Private | Shareable

fun admits :: "privacy_class \<Rightarrow> privacy \<Rightarrow> bool" where
  "admits Private p = (p = Local)"
| "admits Shareable p = True"

fun class_label :: "privacy_class \<Rightarrow> string" where
  "class_label Private = ''private''"
| "class_label Shareable = ''shareable''"

record route_query =
  rq_model :: string
  rq_required_tags :: "string list"

definition new_query :: "string \<Rightarrow> route_query" where
  "new_query model = \<lparr>rq_model = model, rq_required_tags = []\<rparr>"

definition with_tags :: "route_query \<Rightarrow> string list \<Rightarrow> route_query" where
  "with_tags q tags = q\<lparr>rq_required_tags := tags\<rparr>"

record typed_query =
  tq_class :: privacy_class
  tq_query :: route_query

definition classify :: "route_query \<Rightarrow> bool \<Rightarrow> typed_query" where
  "classify query mark_private =
     (if mark_private then \<lparr>tq_class = Private, tq_query = query\<rparr>
      else \<lparr>tq_class = Shareable, tq_query = query\<rparr>)"

section \<open>Candidates\<close>

definition gather :: "typed_query \<Rightarrow> backend list \<Rightarrow> backend list" where
  "gather tq backends =
     filter (\<lambda>b. admits (tq_class tq) (be_privacy b) \<and> serves_model b (rq_model (tq_query tq)) \<and>
                 has_capability_tags b (rq_required_tags (tq_query tq))) backends"

text \<open>\<open>Candidates::select\<close>: whatever index the policy returns, it is looked up with a bounds check.\<close>

definition select :: "backend list \<Rightarrow> (backend list \<Rightarrow> nat option) \<Rightarrow> backend option" where
  "select items pick = (case pick items of
       None \<Rightarrow> None
     | Some idx \<Rightarrow> if idx < length items then Some (items ! idx) else None)"

section \<open>Policies\<close>

definition static_choose :: "backend list \<Rightarrow> nat option" where
  "static_choose candidates = (if candidates = [] then None else Some 0)"

record ewma =
  ew_alpha :: f64
  ew_stats :: "string \<rightharpoonup> f64"

text \<open>\<open>EwmaLatency::new\<close> panics (no result) unless alpha is in (0, 1].\<close>

definition ewma_new :: "f64 \<Rightarrow> ewma option" where
  "ewma_new alpha =
     (if f64_gt alpha (Fin 0) \<and> f64_le alpha (Fin 1)
      then Some \<lparr>ew_alpha = alpha, ew_stats = Map.empty\<rparr> else None)"

record duration =
  du_secs :: u64
  du_nanos :: u32

definition as_secs_f64 :: "duration \<Rightarrow> f64" where
  "as_secs_f64 d =
     f64_add (fl (of_nat (unat (du_secs d)))) (fl (of_nat (unat (du_nanos d)) / 1000000000))"

definition latency_sample :: "duration \<Rightarrow> f64" where
  "latency_sample latency = f64_mul (as_secs_f64 latency) (Fin 1000)"

definition blend :: "f64 \<Rightarrow> f64 \<Rightarrow> f64 \<Rightarrow> f64" where
  "blend alpha sample old = f64_add (f64_mul alpha sample) (f64_mul (f64_sub (Fin 1) alpha) old)"

definition observe :: "ewma \<Rightarrow> string \<Rightarrow> duration \<Rightarrow> ewma" where
  "observe e name latency =
     (let sample = latency_sample latency
      in if \<not> is_finite sample then e
         else case ew_stats e name of
             Some old \<Rightarrow> e\<lparr>ew_stats := (ew_stats e)(name \<mapsto> blend (ew_alpha e) sample old)\<rparr>
           | None \<Rightarrow> e\<lparr>ew_stats := (ew_stats e)(name \<mapsto> sample)\<rparr>)"

definition latency_ms :: "ewma \<Rightarrow> string \<Rightarrow> f64 option" where
  "latency_ms e name = ew_stats e name"

text \<open>\<open>Iterator::min_by\<close> keeps the earlier of two equal elements.\<close>

fun min_by :: "('a \<Rightarrow> 'b::linorder) \<Rightarrow> 'a list \<Rightarrow> 'a option" where
  "min_by f [] = None"
| "min_by f (x # xs) = Some (foldl (\<lambda>acc y. if f acc \<le> f y then acc else y) x xs)"

definition ewma_score :: "ewma \<Rightarrow> backend \<Rightarrow> f64" where
  "ewma_score e b = (case ew_stats e (be_name b) of None \<Rightarrow> Fin 0 | Some v \<Rightarrow> v)"

definition ewma_choose :: "ewma \<Rightarrow> backend list \<Rightarrow> nat option" where
  "ewma_choose e candidates =
     map_option fst (min_by snd (map (\<lambda>(i, b). (i, ewma_score e b)) (enumerate 0 candidates)))"

datatype policy_object =
    StaticPolicy
  | EwmaPolicy ewma
  | OtherPolicy "backend list \<Rightarrow> nat option"

fun policy_choose :: "policy_object \<Rightarrow> backend list \<Rightarrow> nat option" where
  "policy_choose StaticPolicy cs = static_choose cs"
| "policy_choose (EwmaPolicy e) cs = ewma_choose e cs"
| "policy_choose (OtherPolicy f) cs = f cs"

lemma policy_choose_eta [simp]:
  "policy_choose StaticPolicy = static_choose"
  "policy_choose (EwmaPolicy e) = ewma_choose e"
  "policy_choose (OtherPolicy f) = f"
  by (simp_all add: fun_eq_iff)

section \<open>The router\<close>

datatype route_error = NoEligibleBackend string "string list" string

record router =
  ro_backends :: "backend list"
  ro_policy :: policy_object

definition with_policy :: "backend list \<Rightarrow> policy_object \<Rightarrow> router" where
  "with_policy backends policy = \<lparr>ro_backends = backends, ro_policy = policy\<rparr>"

text \<open>\<open>Router::from_config\<close>: no result where the EWMA constructor panics.\<close>

definition router_from_config :: "'addr gateway_config \<Rightarrow> router option" where
  "router_from_config cfg =
     (case cfg_policy cfg of
        StaticPriority \<Rightarrow> Some (with_policy (cfg_backends cfg) StaticPolicy)
      | EwmaLatency alpha \<Rightarrow>
          map_option (\<lambda>e. with_policy (cfg_backends cfg) (EwmaPolicy e)) (ewma_new alpha))"

definition resolve :: "router \<Rightarrow> typed_query \<Rightarrow> route_error + backend" where
  "resolve r tq =
     ok_or (select (gather tq (ro_backends r)) (policy_choose (ro_policy r)))
       (NoEligibleBackend (rq_model (tq_query tq)) (rq_required_tags (tq_query tq))
          (class_label (tq_class tq)))"

definition route :: "router \<Rightarrow> route_query \<Rightarrow> bool \<Rightarrow> route_error + backend" where
  "route r query mark_private = resolve r (classify query mark_private)"

section \<open>Eligibility\<close>

definition eligible :: "route_query \<Rightarrow> bool \<Rightarrow> backend \<Rightarrow> bool" where
  "eligible q mark_private b \<longleftrightarrow>
     (mark_private \<longrightarrow> be_privacy b = Local) \<and> rq_model q \<in> set (be_models b) \<and>
     set (rq_required_tags q) \<subseteq> set (be_capability_tags b)"

lemma serves_model_iff [simp]: "serves_model b m \<longleftrightarrow> m \<in> set (be_models b)"
  by (simp add: serves_model_def list_ex_eq_iff)

lemma has_capability_tags_iff [simp]:
  "has_capability_tags b ts \<longleftrightarrow> set ts \<subseteq> set (be_capability_tags b)"
  by (auto simp: has_capability_tags_def list_all_iff list_ex_eq_iff)

lemma gather_classify: "gather (classify q p) bs = filter (eligible q p) bs"
  by (auto simp: gather_def classify_def eligible_def intro!: filter_cong)

lemma select_in_items: "select items pick = Some b \<Longrightarrow> b \<in> set items"
  by (auto simp: select_def split: option.splits if_splits)

lemma route_eq:
  "route r q p = ok_or (select (filter (eligible q p) (ro_backends r)) (policy_choose (ro_policy r)))
     (NoEligibleBackend (rq_model q) (rq_required_tags q) (if p then ''private'' else ''shareable''))"
  by (simp add: route_def resolve_def gather_classify) (simp add: classify_def)

section \<open>What an honest policy promises\<close>

text \<open>
  The routing facade relies on two laws of a well-behaved policy: it only returns indices of
  candidates, and it declines only an empty list.
\<close>

locale honest_policy =
  fixes pick :: "backend list \<Rightarrow> nat option"
  assumes pick_in_range: "pick cs = Some i \<Longrightarrow> i < length cs"
    and pick_total: "cs \<noteq> [] \<Longrightarrow> pick cs \<noteq> None"
begin

lemma select_None_iff: "select cs pick = None \<longleftrightarrow> cs = []"
  using pick_in_range[of cs] pick_total[of cs] by (cases cs) (auto simp: select_def split: option.splits)

lemma select_complete: "(\<exists>b. select (filter P bs) pick = Some b) \<longleftrightarrow> (\<exists>b\<in>set bs. P b)"
  using select_None_iff[of "filter P bs"] by (auto simp: filter_empty_conv)

end

text \<open>
  A ranking policy additionally promises the first candidate of least score.
\<close>

locale ranking_policy = honest_policy +
  fixes rank :: "backend \<Rightarrow> 'r::linorder"
  assumes pick_least: "pick cs = Some i \<Longrightarrow> j < length cs \<Longrightarrow> rank (cs ! i) \<le> rank (cs ! j)"
    and pick_first: "pick cs = Some i \<Longrightarrow> j < i \<Longrightarrow> rank (cs ! i) < rank (cs ! j)"
begin

lemma select_split:
  assumes "select cs pick = Some b"
  obtains before after where "cs = before @ b # after"
    "\<forall>c\<in>set before. rank b < rank c" "\<forall>c\<in>set after. rank b \<le> rank c"
proof -
  from assms obtain i where i: "pick cs = Some i" "i < length cs" "b = cs ! i"
    by (auto simp: select_def split: option.splits if_splits)
  show ?thesis
  proof (rule that[of "take i cs" "drop (Suc i) cs"])
    show "cs = take i cs @ b # drop (Suc i) cs" using i by (simp add: id_take_nth_drop)
    show "\<forall>c\<in>set (take i cs). rank b < rank c"
      using i pick_first[OF i(1)] by (auto simp: in_set_conv_nth)
    show "\<forall>c\<in>set (drop (Suc i) cs). rank b \<le> rank c"
      using i pick_least[OF i(1)] by (auto simp: in_set_conv_nth)
  qed
qed

end

interpretation static_policy: ranking_policy static_choose "\<lambda>_. 0 :: nat"
  by unfold_locales (auto simp: static_choose_def split: if_splits)

text \<open>The fold of \<open>min_by\<close> ends on the first least element.\<close>

lemma foldl_min_split:
  fixes f :: "'a \<Rightarrow> 'b::linorder"
  defines "step \<equiv> \<lambda>acc y. if f acc \<le> f y then acc else y"
  shows "\<exists>before after. a # ys = before @ foldl step a ys # after \<and>
    (\<forall>c\<in>set before. f (foldl step a ys) < f c) \<and> (\<forall>c\<in>set after. f (foldl step a ys) \<le> f c)"
proof (induction ys rule: rev_induct)
  case Nil
  show ?case by (rule exI[of _ "[]"]) simp
next
  case (snoc y ys)
  let ?m = "foldl step a ys"
  from snoc obtain before after where split: "a # ys = before @ ?m # after"
    and before: "\<forall>c\<in>set before. f ?m < f c" and after: "\<forall>c\<in>set after. f ?m \<le> f c" by blast
  show ?case
  proof (cases "f ?m \<le> f y")
    case True
    then have "foldl step a (ys @ [y]) = ?m" by (simp add: step_def)
    moreover have "a # ys @ [y] = before @ ?m # (after @ [y])" using split by simp
    ultimately show ?thesis using True before after
      by (intro exI[of _ before] exI[of _ "after @ [y]"]) auto
  next
    case False
    then have m: "foldl step a (ys @ [y]) = y" by (simp add: step_def)
    have "\<forall>c\<in>set (a # ys). f y < f c" unfolding split using False before after by fastforce
    with m show ?thesis by (intro exI[of _ "a # ys"] exI[of _ "[]"]) simp
  qed
qed

lemma min_by_split:
  assumes "min_by f xs = Some m"
  obtains before after where "xs = before @ m # after"
    "\<forall>c\<in>set before. f m < f c" "\<forall>c\<in>set after. f m \<le> f c"
proof (cases xs)
  case (Cons a ys)
  with assms have m: "m = foldl (\<lambda>acc y. if f acc \<le> f y then acc else y) a ys" by simp
  show ?thesis using foldl_min_split[of a ys f] that unfolding Cons m by blast
qed (use assms in simp)

lemma min_by_None_iff [simp]: "min_by f xs = None \<longleftrightarrow> xs = []"
  by (cases xs) auto

lemma ewma_choose_split:
  assumes "ewma_choose e cs = Some i"
  shows "i < length cs \<and> (\<forall>j<length cs. ewma_score e (cs ! i) \<le> ewma_score e (cs ! j)) \<and>
    (\<forall>j<i. ewma_score e (cs ! i) < ewma_score e (cs ! j))"
proof -
  let ?xs = "map (\<lambda>(i, b). (i, ewma_score e b)) (enumerate 0 cs)"
  from assms obtain v where "min_by snd ?xs = Some (i, v)" by (auto simp: ewma_choose_def)
  then obtain before after where split: "?xs = before @ (i, v) # after"
    and before: "\<forall>c\<in>set before. v < snd c" and after: "\<forall>c\<in>set after. v \<le> snd c"
    by (auto elim!: min_by_split)
  let ?k = "length before"
  have len: "length cs = Suc (?k + length after)" using arg_cong[OF split, of length] by simp
  have nth: "?xs ! j = (j, ewma_score e (cs ! j))" if "j < length cs" for j
    using that by (simp add: nth_enumerate_eq)
  have "?xs ! ?k = (i, v)" unfolding split by simp
  with nth[of ?k] len have i: "i = ?k" and v: "v = ewma_score e (cs ! i)" by auto
  have lt: "v < ewma_score e (cs ! j)" if "j < i" for j
  proof -
    have "before ! j = ?xs ! j" unfolding split using that i by (simp add: nth_append)
    then have "before ! j = (j, ewma_score e (cs ! j))" using nth[of j] that i len by simp
    moreover have "before ! j \<in> set before" using that i by simp
    ultimately show ?thesis using before by (metis snd_conv)
  qed
  have le: "v \<le> ewma_score e (cs ! j)" if "i < j" "j < length cs" for j
  proof -
    have "after ! (j - Suc ?k) = ?xs ! j" unfolding split using that i by (simp add: nth_append nth_Cons')
    then have "after ! (j - Suc ?k) = (j, ewma_score e (cs ! j))" using nth[of j] that by simp
    moreover have "after ! (j - Suc ?k) \<in> set after" using that i len by simp
    ultimately show ?thesis using after by (metis snd_conv)
  qed
  show ?thesis
    using lt le i len v by (metis less_add_Suc1 linorder_neqE_nat order_less_imp_le order_refl)
qed

interpretation ewma_policy: ranking_policy "ewma_choose e" "ewma_score e" for e
proof
  show "i < length cs" if "ewma_choose e cs = Some i" for cs i
    using ewma_choose_split[OF that] by simp
  show "ewma_choose e cs \<noteq> None" if "cs \<noteq> []" for cs
    using that by (cases cs) (simp_all add: ewma_choose_def)
  show "ewma_score e (cs ! i) \<le> ewma_score e (cs ! j)" if "ewma_choose e cs = Some i" "j < length cs" for cs i j
    using ewma_choose_split[OF that(1)] that(2) by simp
  show "ewma_score e (cs ! i) < ewma_score e (cs ! j)" if "ewma_choose e cs = Some i" "j < i" for cs i j
    using ewma_choose_split[OF that(1)] that(2) by simp
qed

section \<open>Latency statistics\<close>

definition duration_ok :: "duration \<Rightarrow> bool" where
  "duration_ok d \<longleftrightarrow> unat (du_nanos d) < 1000000000"

lemma fl_bounded:
  assumes "0 \<le> x" "x \<le> 2 powi k" "- 1074 \<le> k" "k \<le> 1000"
  obtains r where "fl x = Fin r" "0 \<le> r" "r \<le> 2 powi k" "round_rat r = r"
proof (rule that)
  have "(2::rat) powi k \<le> 2 powi 1023" by (subst powi_le_iff) (use assms in simp)
  with assms(2) have "x \<le> 2 powi 1023" by (rule order_trans)
  then show "fl x = Fin (round_rat x)" by (rule fl_nonneg[OF assms(1)])
qed (use assms round_rat_le_powi round_rat_nonneg in auto)

lemma latency_sample_bounded:
  assumes "duration_ok d"
  obtains r where "latency_sample d = Fin r" "0 \<le> r" "r \<le> 2 powi 75" "round_rat r = r"
proof -
  have "(of_nat (unat (du_secs d)) :: rat) \<le> of_nat (2 ^ 64)"
    unfolding of_nat_le_iff using unsigned_less[of "du_secs d", where ?'a = nat] by simp
  then have "(of_nat (unat (du_secs d)) :: rat) \<le> 2 powi 64" by simp
  then obtain s where s: "fl (of_nat (unat (du_secs d))) = Fin s" "0 \<le> s" "s \<le> 2 powi 64"
    using fl_bounded[OF of_nat_0_le_iff, of "unat (du_secs d)" 64] by auto
  have "(of_nat (unat (du_nanos d)) :: rat) \<le> of_nat 1000000000"
    unfolding of_nat_le_iff using assms by (simp add: duration_ok_def)
  then have "(of_nat (unat (du_nanos d)) :: rat) / 1000000000 \<le> 2 powi 0" by simp
  then obtain n where n: "fl (of_nat (unat (du_nanos d)) / 1000000000) = Fin n" "0 \<le> n" "n \<le> 2 powi 0"
    using fl_bounded[of "of_nat (unat (du_nanos d)) / 1000000000" 0] of_nat_0_le_iff[of "unat (du_nanos d)", where ?'a = rat] by auto
  have "s + n \<le> 2 powi 65" using s n by simp
  then obtain t where t: "fl (s + n) = Fin t" "0 \<le> t" "t \<le> 2 powi 65"
    by (rule fl_bounded[rotated]) (use s n in auto)
  have "t * 1000 \<le> 2 powi 75" using t by simp
  then obtain r where "fl (t * 1000) = Fin r" "0 \<le> r" "r \<le> 2 powi 75" "round_rat r = r"
    by (rule fl_bounded[rotated]) (use t in auto)
  then show ?thesis using that s n t by (simp add: latency_sample_def as_secs_f64_def)
qed

definition observe_all :: "ewma \<Rightarrow> (string \<times> duration) list \<Rightarrow> ewma" where
  "observe_all e history = foldl (\<lambda>e (name, d). observe e name d) e history"

lemma observe_all_simps [simp]:
  "observe_all e [] = e"
  "observe_all e ((name, d) # h) = observe_all (observe e name d) h"
  by (simp_all add: observe_all_def)

text \<open>Every recorded value is finite, non-negative and at most the given power of two.\<close>

definition stats_within :: "int \<Rightarrow> ewma \<Rightarrow> bool" where
  "stats_within k e \<longleftrightarrow> (\<forall>name v. ew_stats e name = Some v \<longrightarrow> Fin 0 \<le> v \<and> v \<le> Fin (2 powi k))"

lemma observe_alpha [simp]: "ew_alpha (observe e name d) = ew_alpha e"
  by (auto simp: observe_def Let_def split: option.splits)

lemma Fin_between: "Fin a \<le> v \<and> v \<le> Fin b \<longleftrightarrow> (\<exists>x. v = Fin x \<and> a \<le> x \<and> x \<le> b)"
  by (cases v) auto

lemma observe_stats_within:
  assumes within: "stats_within k e" and alpha: "ew_alpha e = Fin a" "0 < a" "a \<le> 1" "round_rat a = a"
    and sample: "Fin 0 \<le> latency_sample d" "latency_sample d \<le> Fin (2 powi k)" and k: "0 \<le> k" "k \<le> 1000"
  shows "stats_within k (observe e name d)"
proof -
  from sample obtain s where s: "latency_sample d = Fin s" "0 \<le> s" "s \<le> 2 powi k"
    using Fin_between by blast
  show ?thesis
  proof (cases "ew_stats e name")
    case None
    then show ?thesis using within s by (simp add: stats_within_def observe_def)
  next
    case (Some old)
    with within obtain x where x: "old = Fin x" "0 \<le> x" "x \<le> 2 powi k"
      unfolding stats_within_def using Fin_between by blast
    obtain r where "blend (Fin a) (Fin s) (Fin x) = Fin r" "0 \<le> r" "r \<le> 2 powi k"
      unfolding blend_def using f64_blend[OF alpha(2-4) s(2,3) x(2,3) k] by blast
    then show ?thesis using within s x Some alpha(1) by (simp add: stats_within_def observe_def)
  qed
qed

lemma observe_all_stats_within:
  assumes "stats_within k e" "ew_alpha e = Fin a" "0 < a" "a \<le> 1" "round_rat a = a" "0 \<le> k" "k \<le> 1000"
    and "list_all (\<lambda>(name, d). Fin 0 \<le> latency_sample d \<and> latency_sample d \<le> Fin (2 powi k)) history"
  shows "stats_within k (observe_all e history)"
  using assms
proof (induction history arbitrary: e)
  case (Cons x history)
  obtain name d where x: "x = (name, d)" by (cases x)
  have "stats_within k (observe e name d)" using Cons.prems x by (intro observe_stats_within) auto
  then show ?case using Cons.IH[of "observe e name d"] Cons.prems x by simp
qed simp

lemma ewma_new_Some:
  "ewma_new alpha = Some e \<longleftrightarrow>
     (\<exists>a. alpha = Fin a \<and> 0 < a \<and> a \<le> 1) \<and> e = \<lparr>ew_alpha = alpha, ew_stats = Map.empty\<rparr>"
  unfolding ewma_new_def f64_in_unit_interval by auto

lemma observe_eq:
  assumes "duration_ok d"
  shows "observe e name d = e\<lparr>ew_stats := (ew_stats e)(name \<mapsto>
    (case ew_stats e name of None \<Rightarrow> latency_sample d
     | Some old \<Rightarrow> blend (ew_alpha e) (latency_sample d) old))\<rparr>"
proof -
  obtain r where "latency_sample d = Fin r" using latency_sample_bounded[OF assms] by blast
  then show ?thesis by (simp add: observe_def Let_def split: option.splits)
qed

lemma find_select_static: "select (filter P bs) static_choose = find P bs"
  by (induction bs) (auto simp: select_def static_choose_def)

lemma latency_sample_secs:
  assumes "n * 1000 \<le> 2 ^ 53" "s = of_nat n"
  shows "latency_sample \<lparr>du_secs = s, du_nanos = 0\<rparr> = Fin (of_nat (n * 1000))"
proof -
  have n: "n < 2 ^ 64" and n': "n \<le> 2 ^ 53" using assms(1) by auto
  have "unat (of_nat n :: u64) = n" using n by (simp add: unat_of_nat)
  then have "fl (of_nat (unat s)) = Fin (of_nat n)" using assms(2) fl_of_nat[OF n'] by (simp only:)
  moreover have "fl 0 = Fin 0" using fl_of_nat[of 0] by simp
  ultimately have "as_secs_f64 \<lparr>du_secs = s, du_nanos = 0\<rparr> = fl (of_nat n + 0)"
    by (simp add: as_secs_f64_def del: of_nat_unat)
  then show ?thesis using fl_of_nat[OF n'] fl_of_nat[OF assms(1)] by (simp add: latency_sample_def)
qed

section \<open>Sample routing table\<close>

definition sample_backends :: "backend list" where
  "sample_backends = cfg_backends (resolved_config sample_env sample_raw ())"

lemma sample_backends_eq:
  "sample_backends =
    [\<lparr>be_name = ''oai'', be_base_url = ''https://o'', be_api_key = Some (Secret ''sk''),
      be_models = [''m''], be_capability_tags = [''general''], be_privacy = External\<rparr>,
     \<lparr>be_name = ''llm'', be_base_url = ''http://h'', be_api_key = None,
      be_models = [''m'', ''q''], be_capability_tags = [], be_privacy = Local\<rparr>]"
  by (simp add: sample_backends_def resolved_config_def resolved_backend_def sample_defs
      trim_end_matches_def)

definition sample_ewma :: ewma where
  "sample_ewma = \<lparr>ew_alpha = Fin (1 / 2), ew_stats = [''oai'' \<mapsto> Fin 5, ''llm'' \<mapsto> Fin 7]\<rparr>"

lemma half_rounded [simp]: "round_rat (1 / 2) = 1 / 2"
  using round_rat_exact[of 1 "- 1"] by (simp add: power_int_minus)

section \<open>Properties\<close>

text \<open>C7: The privacy guarantee. Whatever the backend table and whatever the policy object (an
  arbitrary function returning arbitrary indices included), a query routed as private that
  resolves to a backend resolves to a configured Local one that serves the model and has all
  required tags.\<close>

theorem private_never_external:
  assumes "route r q True = Inr b"
  shows "b \<in> set (ro_backends r) \<and> be_privacy b = Local \<and> serves_model b (rq_model q) \<and>
    has_capability_tags b (rq_required_tags q)"
proof -
  have "b \<in> set (filter (eligible q True) (ro_backends r))"
    using assms by (auto simp: route_eq result_simps dest: select_in_items)
  then show ?thesis by (auto simp: eligible_def)
qed

theorem private_never_external_witness:
  "be_privacy (sample_backends ! 1) = Local"
  using private_never_external[of "with_policy sample_backends (OtherPolicy (\<lambda>_. Some 0))"
      "new_query ''m''" "sample_backends ! 1"]
  by (simp add: route_eq with_policy_def new_query_def sample_backends_eq eligible_def select_def)

text \<open>Shareable queries too resolve only to configured backends that serve the model and carry
  the required tags, under any policy object; and a failure always carries the model, the
  tags and the label of the privacy class of the query.\<close>

theorem route_only_eligible:
  "case route r q p of
     Inr b \<Rightarrow> b \<in> set (ro_backends r) \<and> eligible q p b
   | Inl err \<Rightarrow> err = NoEligibleBackend (rq_model q) (rq_required_tags q)
                      (if p then ''private'' else ''shareable'')"
proof (cases "route r q p")
  case (Inr b)
  then have "b \<in> set (filter (eligible q p) (ro_backends r))"
    by (auto simp: route_eq result_simps dest: select_in_items)
  with Inr show ?thesis by simp
qed (auto simp: route_eq result_simps)

text \<open>Completeness of the policies of the crate: static priority and EWMA find a backend
  exactly when the table holds an eligible one.\<close>

theorem honest_policies_complete:
  "(isl (route (with_policy bs StaticPolicy) q p) \<longleftrightarrow> \<not> list_ex (eligible q p) bs) \<and>
   (isl (route (with_policy bs (EwmaPolicy e)) q p) \<longleftrightarrow> \<not> list_ex (eligible q p) bs)"
proof -
  have ok: "isl (ok_or x err) \<longleftrightarrow> \<not> (\<exists>b. x = Some b)" for x :: "backend option" and err :: route_error
    by (cases x) auto
  show ?thesis
    using static_policy.select_complete[of "eligible q p" bs] ewma_policy.select_complete[of "eligible q p" bs e]
    by (simp add: route_eq with_policy_def ok list_ex_iff del: not_Some_eq)
qed

text \<open>Static priority returns the first eligible backend in configuration order.\<close>

theorem static_priority_first:
  "route (with_policy bs StaticPolicy) q p =
     ok_or (find (eligible q p) bs)
       (NoEligibleBackend (rq_model q) (rq_required_tags q) (if p then ''private'' else ''shareable''))"
proof -
  show ?thesis by (simp add: route_eq with_policy_def find_select_static)
qed

text \<open>C31: EWMA routing returns an eligible backend of least average latency (0 for a backend with
  no sample); among equals, the earliest in configuration order.\<close>

theorem ewma_routes_to_fastest:
  assumes "route (with_policy bs (EwmaPolicy e)) q p = Inr b"
  shows "\<exists>before after. filter (eligible q p) bs = before @ b # after \<and>
    (\<forall>c\<in>set before. ewma_score e b < ewma_score e c) \<and>
    (\<forall>c\<in>set after. ewma_score e b \<le> ewma_score e c)"
proof -
  from assms have "select (filter (eligible q p) bs) (ewma_choose e) = Some b"
    by (simp add: route_eq with_policy_def result_simps)
  then show ?thesis by (rule ewma_policy.select_split) blast
qed

theorem ewma_routes_to_fastest_witness:
  "\<exists>before after. filter (eligible (new_query ''m'') False) sample_backends
      = before @ sample_backends ! 0 # after \<and>
    (\<forall>c\<in>set before. ewma_score sample_ewma (sample_backends ! 0) < ewma_score sample_ewma c) \<and>
    (\<forall>c\<in>set after. ewma_score sample_ewma (sample_backends ! 0) \<le> ewma_score sample_ewma c)"
  by (rule ewma_routes_to_fastest)
    (simp add: route_eq with_policy_def new_query_def sample_backends_eq eligible_def select_def
      ewma_choose_def ewma_score_def sample_ewma_def)

text \<open>Recording a latency: the first sample is taken as is, later ones are blended with weight
  alpha, and no other backend's average changes; the finiteness guard never drops a real
  duration.\<close>

theorem observe_updates:
  assumes "duration_ok d"
  shows "latency_ms (observe e name d) other =
    (if other = name
     then Some (case latency_ms e name of
         None \<Rightarrow> latency_sample d
       | Some old \<Rightarrow> f64_add (f64_mul (ew_alpha e) (latency_sample d))
                              (f64_mul (f64_sub (Fin 1) (ew_alpha e)) old))
     else latency_ms e other)"
  using assms by (auto simp: latency_ms_def observe_eq blend_def split: option.splits)

theorem observe_updates_witness:
  "latency_ms (observe sample_ewma ''new'' \<lparr>du_secs = 2, du_nanos = 0\<rparr>) ''new'' = Some (Fin 2000)"
  using observe_updates[of "\<lparr>du_secs = 2, du_nanos = 0\<rparr>" sample_ewma "''new''" "''new''"]
    latency_sample_secs[of 2 2]
  by (simp add: duration_ok_def latency_ms_def sample_ewma_def)

text \<open>Averages never become infinite or NaN: after any sequence of durations, every recorded average
  is a finite number between 0 and 2^75 milliseconds.\<close>

lemma ewma_stays_finite:
  assumes "ewma_new (Fin a) = Some e0" and "round_rat a = a"
    and "list_all (\<lambda>(name, d). duration_ok d) history"
    and "latency_ms (observe_all e0 history) name = Some v"
  shows "is_finite v \<and> Fin 0 \<le> v \<and> v \<le> Fin (2 powi 75)"
proof -
  from assms(1) have a: "0 < a" "a \<le> 1" and e0: "e0 = \<lparr>ew_alpha = Fin a, ew_stats = Map.empty\<rparr>"
    by (auto simp: ewma_new_Some)
  have "Fin 0 \<le> latency_sample d \<and> latency_sample d \<le> Fin (2 powi 75)" if "duration_ok d" for d
    using latency_sample_bounded[OF that] by (metis Fin_between)
  then have "list_all (\<lambda>(name, d). Fin 0 \<le> latency_sample d \<and> latency_sample d \<le> Fin (2 powi 75)) history"
    using assms(3) by (auto simp: list_all_iff)
  then have "stats_within 75 (observe_all e0 history)"
    using a assms(2) e0 by (intro observe_all_stats_within[where a = a]) (auto simp: stats_within_def)
  then show ?thesis using assms(4) Fin_between[of 0 v] unfolding stats_within_def latency_ms_def
    by (metis is_finite.simps(1))
qed

text \<open>
  The average a backend should have: the exponential average of its samples in exact arithmetic, the
  first sample being the first average.
\<close>

definition sample_value :: "duration \<Rightarrow> rat" where
  "sample_value d = (case latency_sample d of Fin s \<Rightarrow> s | _ \<Rightarrow> 0)"

definition samples_of :: "string \<Rightarrow> (string \<times> duration) list \<Rightarrow> rat list" where
  "samples_of name history = map (\<lambda>(n, d). sample_value d) (filter (\<lambda>(n, d). n = name) history)"

definition exact_average :: "rat \<Rightarrow> rat list \<Rightarrow> rat option" where
  "exact_average a xs = (case xs of
     [] \<Rightarrow> None
   | x # xs \<Rightarrow> Some (foldl (\<lambda>avg x. a * x + (1 - a) * avg) x xs))"

lemma exact_average_snoc:
  "exact_average a (xs @ [x]) =
     Some (case exact_average a xs of None \<Rightarrow> x | Some avg \<Rightarrow> a * x + (1 - a) * avg)"
  by (cases xs) (simp_all add: exact_average_def)

lemma observe_all_snoc: "observe_all e (h @ [(n, d)]) = observe (observe_all e h) n d"
  by (simp add: observe_all_def)

lemma observe_all_alpha [simp]: "ew_alpha (observe_all e h) = ew_alpha e"
  by (induction h arbitrary: e) auto

lemma average_near:
  assumes a: "0 < a" "a \<le> 1" "round_rat a = a" and e0: "e0 = \<lparr>ew_alpha = Fin a, ew_stats = Map.empty\<rparr>"
    and k: "0 \<le> k" "k \<le> 1000"
    and "list_all (\<lambda>(n, d). duration_ok d \<and> latency_sample d \<le> Fin (2 powi k)) history"
  shows "case exact_average a (samples_of name history) of
      None \<Rightarrow> latency_ms (observe_all e0 history) name = None
    | Some x \<Rightarrow> \<exists>v. latency_ms (observe_all e0 history) name = Some (Fin v) \<and> 0 \<le> v \<and> v \<le> 2 powi k
        \<and> \<bar>v - x\<bar> \<le> of_nat (length history) * 2 powi (k - 50)"
  using assms(7)
proof (induction history rule: rev_induct)
  case Nil
  then show ?case by (simp add: samples_of_def exact_average_def e0 latency_ms_def)
next
  case (snoc nd h)
  let ?u = "2 powi (k - 50) :: rat"
  obtain n d where nd: "nd = (n, d)" by (cases nd)
  then have d: "duration_ok d" and ih: "case exact_average a (samples_of name h) of
      None \<Rightarrow> latency_ms (observe_all e0 h) name = None
    | Some x \<Rightarrow> \<exists>v. latency_ms (observe_all e0 h) name = Some (Fin v) \<and> 0 \<le> v \<and> v \<le> 2 powi k
        \<and> \<bar>v - x\<bar> \<le> of_nat (length h) * ?u"
    using snoc by simp_all
  obtain s where "latency_sample d = Fin s" "0 \<le> s" using latency_sample_bounded[OF d] by blast
  moreover have "latency_sample d \<le> Fin (2 powi k)" using snoc.prems by (simp add: nd)
  ultimately have s: "latency_sample d = Fin s" "0 \<le> s" "s \<le> 2 powi k" "sample_value d = s"
    by (simp_all add: sample_value_def)
  have u: "0 < ?u" by simp
  show ?case
  proof (cases "n = name")
    case False
    then have "samples_of name (h @ [nd]) = samples_of name h"
      and "latency_ms (observe_all e0 (h @ [nd])) name = latency_ms (observe_all e0 h) name"
      using d by (simp_all add: nd samples_of_def observe_all_snoc latency_ms_def observe_eq)
    then show ?thesis using ih
      by (cases "exact_average a (samples_of name h)") (auto simp: distrib_right intro!: add_increasing)
  next
    case True
    then have "samples_of name (h @ [nd]) = samples_of name h @ [s]"
      and obs: "latency_ms (observe_all e0 (h @ [nd])) name =
        Some (case latency_ms (observe_all e0 h) name of None \<Rightarrow> Fin s | Some old \<Rightarrow> blend (Fin a) (Fin s) old)"
      using d s e0 by (simp_all add: nd samples_of_def observe_all_snoc latency_ms_def observe_eq split: option.split)
    note av = exact_average_snoc[of a "samples_of name h" s, folded this(1)]
    show ?thesis
    proof (cases "exact_average a (samples_of name h)")
      case None
      then have "latency_ms (observe_all e0 (h @ [nd])) name = Some (Fin s)" using ih obs by simp
      then show ?thesis using None s av u by simp
    next
      case (Some x)
      then obtain v where v: "latency_ms (observe_all e0 h) name = Some (Fin v)" "0 \<le> v" "v \<le> 2 powi k"
        "\<bar>v - x\<bar> \<le> of_nat (length h) * ?u" using ih by auto
      obtain r where r: "blend (Fin a) (Fin s) (Fin v) = Fin r" "0 \<le> r" "r \<le> 2 powi k"
        "\<bar>r - (a * s + (1 - a) * v)\<bar> \<le> ?u"
        unfolding blend_def using f64_blend[OF a s(2,3) v(2,3) k] by blast
      have "\<bar>(a * s + (1 - a) * v) - (a * s + (1 - a) * x)\<bar> = (1 - a) * \<bar>v - x\<bar>"
        using a by (simp add: right_diff_distrib[symmetric] abs_mult)
      also have "\<dots> \<le> 1 * \<bar>v - x\<bar>" using a by (intro mult_right_mono) simp_all
      finally have "\<bar>r - (a * s + (1 - a) * x)\<bar> \<le> of_nat (length (h @ [nd])) * ?u"
        using r(4) v(4) by (simp add: distrib_right)
      moreover have "latency_ms (observe_all e0 (h @ [nd])) name = Some (Fin r)" using obs v(1) r(1) by simp
      ultimately show ?thesis using Some av r(2,3) by (simp del: length_append)
    qed
  qed
qed

text \<open>C32: what the latency statistics are. Take any doubles alpha in (0, 1] and any history of observed
  durations whose samples are at most 2^k milliseconds. A backend has an average exactly when it has a
  sample; the average is a finite double between 0 and 2^k, and it differs from the exponential average
  of the backend's own samples in exact arithmetic (weight alpha on the new sample, the first sample taken as
  is) by at most 2^(k - 50) per observation. Every possible duration is a sample of at most 2^75 milliseconds, so
  that k = 75 serves for any history.\<close>

theorem ewma_tracks_average:
  assumes "ewma_new (Fin a) = Some e0" and "round_rat a = a" and "0 \<le> k" and "k \<le> 1000"
    and "list_all (\<lambda>(n, d). duration_ok d \<and> (latency_sample d \<le> Fin (2 powi k) \<or> k = 75)) history"
  shows "case exact_average a (samples_of name history) of
      None \<Rightarrow> latency_ms (observe_all e0 history) name = None
    | Some x \<Rightarrow> \<exists>v. latency_ms (observe_all e0 history) name = Some (Fin v) \<and> 0 \<le> v \<and> v \<le> 2 powi k
        \<and> \<bar>v - x\<bar> \<le> of_nat (length history) * 2 powi (k - 50)"
proof -
  have "0 < a" "a \<le> 1" "e0 = \<lparr>ew_alpha = Fin a, ew_stats = Map.empty\<rparr>"
    using assms(1) by (auto simp: ewma_new_Some)
  moreover have "latency_sample d \<le> Fin (2 powi 75)" if "duration_ok d" for d
    using latency_sample_bounded[OF that] by (metis Fin_le_iff)
  then have "list_all (\<lambda>(n, d). duration_ok d \<and> latency_sample d \<le> Fin (2 powi k)) history"
    using assms(5) by (auto simp: list_all_iff)
  ultimately show ?thesis using average_near[of a e0 k history name] assms(2-4) by blast
qed

lemma ewma_tracks_average_witness:
  "\<exists>v. latency_ms (observe_all \<lparr>ew_alpha = Fin (1 / 2), ew_stats = Map.empty\<rparr>
       [(''b'', \<lparr>du_secs = 2, du_nanos = 0\<rparr>), (''b'', \<lparr>du_secs = 4, du_nanos = 0\<rparr>)]) ''b'' = Some (Fin v)
     \<and> 0 \<le> v \<and> v \<le> 2 powi 12 \<and> \<bar>v - 3000\<bar> \<le> 2 * 2 powi (- 38)"
proof -
  let ?h = "[(''b'', \<lparr>du_secs = 2, du_nanos = 0\<rparr>), (''b'', \<lparr>du_secs = 4, du_nanos = 0\<rparr>)]"
  let ?e = "\<lparr>ew_alpha = Fin (1 / 2), ew_stats = Map.empty\<rparr>"
  have samples: "latency_sample \<lparr>du_secs = 2, du_nanos = 0\<rparr> = Fin 2000" "latency_sample \<lparr>du_secs = 4, du_nanos = 0\<rparr> = Fin 4000"
    using latency_sample_secs[of 2 2] latency_sample_secs[of 4 4] by simp_all
  have "exact_average (1 / 2) (samples_of ''b'' ?h) = Some 3000"
    by (simp add: samples_of_def sample_value_def samples exact_average_def)
  moreover have "ewma_new (Fin (1 / 2)) = Some ?e" by (simp add: ewma_new_def f64_gt_def f64_le_def)
  moreover have "round_rat (1 / 2) = (1 / 2)" using round_rat_exact[of 1 "- 1"] by simp
  moreover have "list_all (\<lambda>(n, d). duration_ok d \<and> (latency_sample d \<le> Fin (2 powi 12) \<or> (12 :: int) = 75)) ?h"
    by (simp add: samples duration_ok_def)
  ultimately show ?thesis using ewma_tracks_average[of "1 / 2" ?e 12 ?h "''b''"] by simp
qed

text \<open>Cold backends are probed: while some eligible backend has no sample, EWMA routing only
  returns a backend whose score is exactly 0.\<close>

theorem ewma_probes_cold_backend:
  assumes "route (with_policy bs (EwmaPolicy e)) q p = Inr b" and "stats_within k e"
    and "c \<in> set bs" and "eligible q p c" and "latency_ms e (be_name c) = None"
  shows "ewma_score e b = Fin 0"
proof -
  from assms(1) have "select (filter (eligible q p) bs) (ewma_choose e) = Some b"
    by (simp add: route_eq with_policy_def result_simps)
  then obtain before after where split: "filter (eligible q p) bs = before @ b # after"
    and le: "\<forall>c\<in>set before. ewma_score e b < ewma_score e c" "\<forall>c\<in>set after. ewma_score e b \<le> ewma_score e c"
    by (rule ewma_policy.select_split)
  have "c \<in> set (filter (eligible q p) bs)" using assms(3,4) by simp
  then have "ewma_score e b \<le> ewma_score e c" unfolding split using le by auto
  moreover have "ewma_score e c = Fin 0" using assms(5) by (simp add: ewma_score_def latency_ms_def)
  moreover have "Fin 0 \<le> ewma_score e b"
    using assms(2) by (auto simp: ewma_score_def stats_within_def split: option.splits)
  ultimately show ?thesis by (metis order_antisym)
qed

theorem ewma_probes_cold_backend_witness:
  "ewma_score (sample_ewma\<lparr>ew_stats := [''oai'' \<mapsto> Fin 5]\<rparr>) (sample_backends ! 1) = Fin 0"
  by (rule ewma_probes_cold_backend[of sample_backends _ "new_query ''m''" False _ 3 "sample_backends ! 1"])
    (simp_all add: route_eq with_policy_def new_query_def sample_backends_eq eligible_def select_def
      ewma_choose_def ewma_score_def sample_ewma_def stats_within_def latency_ms_def)

text \<open>A configuration that loads never makes the router's constructor panic, and the router
  serves exactly the configured backends.\<close>

theorem loaded_config_builds_router:
  assumes "load toml_parse parse_addr env fs = Inr cfg"
  shows "\<exists>r. router_from_config cfg = Some r \<and> ro_backends r = cfg_backends cfg"
proof -
  from assms obtain raw listen where "config_valid env raw" "cfg = resolved_config env raw listen"
    by (auto simp: load_Inr_iff)
  then have "wf_config cfg" by (simp add: wf_resolved_config)
  then have "wf_policy (cfg_policy cfg)" by (simp add: wf_config_def)
  then show ?thesis
    by (cases "cfg_policy cfg") (auto simp: router_from_config_def with_policy_def ewma_new_def)
qed

theorem loaded_config_builds_router_witness:
  "\<exists>r. router_from_config (resolved_config sample_env sample_raw ()) = Some r \<and>
       ro_backends r = cfg_backends (resolved_config sample_env sample_raw ())"
  by (rule loaded_config_builds_router[OF sample_loads])

end
