(* ===== verification/Typed_Routing.thy ===== *)
theory Typed_Routing
  imports Routing
begin

text \<open>
  The witness types of \<open>src/router.rs\<close>: \<open>Candidates<P>\<close> and \<open>Selection<P>\<close> are structures with private
  fields, here records with the class \<open>P\<close> as a field.  Outside the module their values come from the public
  operations only: \<open>gather\<close> makes candidates, \<open>select\<close> makes selections from them; the inductive
  predicates \<open>obtainable_candidates\<close> and \<open>obtainable_selection\<close> say so.  The crate concludes that a private
  selection cannot refer to an External backend; this is proved of what the operations compute.
\<close>

section \<open>The operations of the module\<close>

record candidates =
  cn_class :: privacy_class
  cn_items :: "backend list"

record selection =
  sl_class :: privacy_class
  sl_backend :: backend

text \<open>\<open>Candidates::gather\<close>, \<open>len\<close> and \<open>is_empty\<close>.\<close>

definition gather_candidates :: "typed_query \<Rightarrow> backend list \<Rightarrow> candidates" where
  "gather_candidates tq backends = \<lparr>cn_class = tq_class tq, cn_items = gather tq backends\<rparr>"

definition candidates_len :: "candidates \<Rightarrow> nat" where
  "candidates_len cs = length (cn_items cs)"

definition candidates_is_empty :: "candidates \<Rightarrow> bool" where
  "candidates_is_empty cs = (cn_items cs = [])"

text \<open>
  \<open>Candidates::select\<close>: the policy's index is looked up with a bounds check.  In a debug build the
  selected backend is tested against the class, and a failure is a panic.
\<close>

datatype 'a checked = Panicked | Returned 'a

definition select_candidate :: "candidates \<Rightarrow> (backend list \<Rightarrow> nat option) \<Rightarrow> selection option" where
  "select_candidate cs pick =
     (case select (cn_items cs) pick of
        None \<Rightarrow> None
      | Some b \<Rightarrow> Some \<lparr>sl_class = cn_class cs, sl_backend = b\<rparr>)"

definition select_asserted :: "candidates \<Rightarrow> (backend list \<Rightarrow> nat option) \<Rightarrow> selection option checked" where
  "select_asserted cs pick =
     (case select_candidate cs pick of
        None \<Rightarrow> Returned None
      | Some s \<Rightarrow> if admits (cn_class cs) (be_privacy (sl_backend s)) then Returned (Some s) else Panicked)"

text \<open>\<open>Router::resolve\<close> over the structures.\<close>

definition typed_resolve :: "router \<Rightarrow> typed_query \<Rightarrow> route_error + backend" where
  "typed_resolve r tq =
     ok_or (map_option sl_backend
         (select_candidate (gather_candidates tq (ro_backends r)) (policy_choose (ro_policy r))))
       (NoEligibleBackend (rq_model (tq_query tq)) (rq_required_tags (tq_query tq))
          (class_label (tq_class tq)))"

section \<open>What code outside the module can hold\<close>

inductive obtainable_candidates :: "typed_query \<Rightarrow> backend list \<Rightarrow> candidates \<Rightarrow> bool" for tq bs where
  gathered: "obtainable_candidates tq bs (gather_candidates tq bs)"

inductive obtainable_selection :: "typed_query \<Rightarrow> backend list \<Rightarrow> selection \<Rightarrow> bool" for tq bs where
  selected: "obtainable_candidates tq bs cs \<Longrightarrow> select_candidate cs pick = Some s \<Longrightarrow> obtainable_selection tq bs s"

inductive_simps obtainable_candidates_iff: "obtainable_candidates tq bs cs"
inductive_cases obtainable_selectionE: "obtainable_selection tq bs s"

lemma gathered_items:
  "b \<in> set (cn_items (gather_candidates tq bs)) \<longleftrightarrow>
     b \<in> set bs \<and> (tq_class tq = Private \<longrightarrow> be_privacy b = Local) \<and>
     rq_model (tq_query tq) \<in> set (be_models b) \<and> set (rq_required_tags (tq_query tq)) \<subseteq> set (be_capability_tags b)"
proof -
  have "admits (tq_class tq) (be_privacy b) \<longleftrightarrow> (tq_class tq = Private \<longrightarrow> be_privacy b = Local)"
    by (cases "tq_class tq") simp_all
  then show ?thesis by (auto simp: gather_candidates_def gather_def)
qed

lemma obtained:
  assumes "obtainable_selection tq bs s"
  shows "sl_class s = tq_class tq" "sl_backend s \<in> set (cn_items (gather_candidates tq bs))"
proof -
  from assms have "sl_class s = tq_class tq \<and> sl_backend s \<in> set (cn_items (gather_candidates tq bs))"
  proof (rule obtainable_selectionE)
    fix cs pick
    assume cs: "obtainable_candidates tq bs cs" and s: "select_candidate cs pick = Some s"
    from cs have "cs = gather_candidates tq bs" by (simp add: obtainable_candidates_iff)
    with s show ?thesis
      by (auto simp: select_candidate_def gather_candidates_def split: option.splits dest: select_in_items)
  qed
  then show "sl_class s = tq_class tq" "sl_backend s \<in> set (cn_items (gather_candidates tq bs))" by simp_all
qed

text \<open>Routing through the structures is \<open>route\<close>, and the counts are those of the eligible backends.\<close>

lemma typed_routing_is_routing:
  "typed_resolve r (classify q mark_private) = route r q mark_private"
  "candidates_is_empty (gather_candidates (classify q mark_private) bs) \<longleftrightarrow> \<not> list_ex (eligible q mark_private) bs"
  "candidates_len (gather_candidates (classify q mark_private) bs) = length (filter (eligible q mark_private) bs)"
proof -
  have "map_option sl_backend (select_candidate cs pick) = select (cn_items cs) pick" for cs pick
    by (simp add: select_candidate_def split: option.split)
  then show "typed_resolve r (classify q mark_private) = route r q mark_private"
    by (simp add: typed_resolve_def route_def resolve_def gather_candidates_def)
qed (simp_all add: candidates_is_empty_def candidates_len_def gather_candidates_def gather_classify
    filter_empty_conv list_ex_iff)

text \<open>C18: the type-level guarantee. A selection that code outside the module can hold, whatever policy made
  it, refers to a backend of the table that serves the model and carries the tags of its query; if it is
  a private selection, the backend is Local: a private selection of an External backend cannot be
  obtained. And the debug assertion in \<open>select\<close> fires for no candidates that can be obtained and no policy.\<close>
theorem selections_are_witnesses:
  assumes "obtainable_selection tq bs s"
  shows "sl_backend s \<in> set bs \<and> (sl_class s = Private \<longrightarrow> be_privacy (sl_backend s) = Local)
    \<and> sl_class s = tq_class tq \<and> rq_model (tq_query tq) \<in> set (be_models (sl_backend s))
    \<and> set (rq_required_tags (tq_query tq)) \<subseteq> set (be_capability_tags (sl_backend s))
    \<and> (\<forall>cs pick. obtainable_candidates tq bs cs \<longrightarrow> select_asserted cs pick \<noteq> Panicked)"
proof -
  have "select_asserted cs pick \<noteq> Panicked" if "obtainable_candidates tq bs cs" for cs pick
  proof (cases "select (cn_items cs) pick")
    case (Some b)
    have "admits (cn_class cs) (be_privacy b)"
      using that select_in_items[OF Some] by (auto simp: obtainable_candidates_iff gather_candidates_def gather_def)
    with Some show ?thesis by (simp add: select_asserted_def select_candidate_def)
  qed (simp add: select_asserted_def select_candidate_def)
  then show ?thesis using obtained[OF assms] by (simp add: gathered_items)
qed

lemma selections_are_witnesses_witness:
  "\<exists>s. obtainable_selection (classify (new_query ''m'') True) sample_backends s \<and> sl_class s = Private
     \<and> be_privacy (sl_backend s) = Local"
proof -
  let ?tq = "classify (new_query ''m'') True"
  let ?s = "\<lparr>sl_class = Private, sl_backend = sample_backends ! 1\<rparr>"
  have "select_candidate (gather_candidates ?tq sample_backends) (\<lambda>_. Some 0) = Some ?s"
    by (simp add: select_candidate_def gather_candidates_def gather_classify eligible_def new_query_def select_def sample_backends_eq)
      (simp add: classify_def)
  then have "obtainable_selection ?tq sample_backends ?s"
    by (rule obtainable_selection.selected[OF obtainable_candidates.gathered])
  from selections_are_witnesses[OF this] this show ?thesis by (intro exI[of _ ?s]) simp
qed

end
