(* ===== verification/Scanner.thy ===== *)
theory Scanner
  imports Prelude
begin

text \<open>
  The usage scanner of \<open>src/upstream.rs\<close>: an incremental parser of server-sent events that
  works on a copy of the relayed bytes.  The JSON parser (\<open>serde_json::from_slice\<close> at type
  \<open>UsageEnvelope\<close>) is an argument \<open>parse_env\<close>: no result is a parse error, \<open>Some None\<close> an
  envelope whose \<open>usage\<close> is absent or null.
\<close>

record usage =
  us_prompt :: u64
  us_completion :: u64
  us_total :: u64

record scanner =
  sc_buf :: bytes
  sc_last_usage :: "usage option"
  sc_saw_done :: bool
  sc_overflowed :: bool

definition new_scanner :: scanner where
  "new_scanner = \<lparr>sc_buf = [], sc_last_usage = None, sc_saw_done = False, sc_overflowed = False\<rparr>"

definition max_event_buffer :: nat where
  "max_event_buffer = 1024 * 1024"

abbreviation (input) LF :: char where "LF \<equiv> CHR 0x0A"
abbreviation (input) CR :: char where "CR \<equiv> CHR 0x0D"

section \<open>Line terminators and event boundaries\<close>

datatype line_term = NotTerm | Len nat | Incomplete

definition byte_at :: "bytes \<Rightarrow> nat \<Rightarrow> char option" where
  "byte_at buf i = (if i < length buf then Some (buf ! i) else None)"

definition term_at :: "bytes \<Rightarrow> nat \<Rightarrow> line_term" where
  "term_at buf i = (case byte_at buf i of
       Some c \<Rightarrow>
         if c = LF then Len 1
         else if c = CR then (case byte_at buf (i + 1) of
             Some d \<Rightarrow> if d = LF then Len 2 else Len 1
           | None \<Rightarrow> Incomplete)
         else NotTerm
     | None \<Rightarrow> NotTerm)"

lemma term_at_Len_bounds: "term_at buf i = Len l \<Longrightarrow> 0 < l \<and> i + l \<le> length buf"
  by (auto simp: term_at_def byte_at_def split: option.splits if_splits)

text \<open>The loop of \<open>find_event_boundary\<close> from index \<open>i\<close>.\<close>

function find_from :: "bytes \<Rightarrow> nat \<Rightarrow> (nat \<times> nat) option" where
  "find_from buf i =
     (if i < length buf then
        (case term_at buf i of
           NotTerm \<Rightarrow> find_from buf (i + 1)
         | Incomplete \<Rightarrow> None
         | Len l1 \<Rightarrow>
             (case term_at buf (i + l1) of
                NotTerm \<Rightarrow> find_from buf (i + l1)
              | Incomplete \<Rightarrow> None
              | Len l2 \<Rightarrow> Some (i, i + l1 + l2)))
      else None)"
  by pat_completeness auto
termination
  by (relation "measure (\<lambda>(buf, i). length buf - i)") (auto dest: term_at_Len_bounds)

declare find_from.simps [simp del]

definition find_event_boundary :: "bytes \<Rightarrow> (nat \<times> nat) option" where
  "find_event_boundary buf = find_from buf 0"

lemma find_from_bounds:
  "find_from buf i = Some (e, c) \<Longrightarrow> i \<le> e \<and> e < c \<and> c \<le> length buf"
proof (induction buf i rule: find_from.induct)
  case (1 buf i)
  then show ?case
    by (subst (asm) (2) find_from.simps)
      (fastforce split: if_splits line_term.splits dest: term_at_Len_bounds)
qed

lemma find_event_boundary_bounds:
  "find_event_boundary buf = Some (e, c) \<Longrightarrow> e < c \<and> c \<le> length buf"
  using find_from_bounds by (auto simp: find_event_boundary_def)

section \<open>The payload of one event\<close>

definition collect_data_line :: "bytes \<Rightarrow> bytes \<times> bool \<Rightarrow> bytes \<times> bool" where
  "collect_data_line line acc =
     (case acc of (data, saw_data_line) \<Rightarrow>
        let payload =
          (case strip_prefix ''data:'' line of
             Some rest \<Rightarrow> Some (case strip_prefix '' '' rest of Some r \<Rightarrow> r | None \<Rightarrow> rest)
           | None \<Rightarrow> if line = ''data'' then Some [] else None)
        in case payload of
             None \<Rightarrow> (data, saw_data_line)
           | Some p \<Rightarrow> ((if saw_data_line then data @ [LF] else data) @ p, True))"

text \<open>The line loop of \<open>process_event\<close>: \<open>i\<close> scans, the current line starts at \<open>line_start\<close>.\<close>

function collect_lines :: "bytes \<Rightarrow> nat \<Rightarrow> nat \<Rightarrow> bytes \<times> bool \<Rightarrow> bytes \<times> bool" where
  "collect_lines event i line_start acc =
     (case term_at event i of
        Len l \<Rightarrow> collect_lines event (i + l) (i + l)
                   (collect_data_line (drop line_start (take i event)) acc)
      | _ \<Rightarrow> if length event \<le> i then collect_data_line (drop line_start event) acc
             else collect_lines event (i + 1) line_start acc)"
  by pat_completeness auto
termination
  by (relation "measure (\<lambda>(event, i, _, _). Suc (length event) - i)")
    (auto dest: term_at_Len_bounds)

declare collect_lines.simps [simp del]

definition windows :: "nat \<Rightarrow> 'a list \<Rightarrow> 'a list list" where
  "windows k xs = map (\<lambda>i. take k (drop i xs)) [0 ..< length xs + 1 - k]"

definition event_data :: "bytes \<Rightarrow> bytes option" where
  "event_data event =
     (case collect_lines event 0 0 ([], False) of (data, saw) \<Rightarrow> if saw then Some data else None)"

definition process_event :: "(bytes \<Rightarrow> usage option option) \<Rightarrow> bytes \<Rightarrow> scanner \<Rightarrow> scanner" where
  "process_event parse_env event s =
     (case event_data event of
        None \<Rightarrow> s
      | Some data \<Rightarrow>
          if data = ''[DONE]'' then s\<lparr>sc_saw_done := True\<rparr>
          else if list_ex (\<lambda>w. w = ''\"usage\"'') (windows 7 data) then
            (case parse_env data of Some (Some u) \<Rightarrow> s\<lparr>sc_last_usage := Some u\<rparr> | _ \<Rightarrow> s)
          else s)"

lemma process_event_frame [simp]:
  "sc_buf (process_event p e s) = sc_buf s"
  "sc_overflowed (process_event p e s) = sc_overflowed s"
  by (auto simp: process_event_def split: option.splits)

section \<open>Feeding a chunk\<close>

text \<open>The \<open>while let\<close> loop: take out one complete event after another.\<close>

function drain :: "(bytes \<Rightarrow> usage option option) \<Rightarrow> scanner \<Rightarrow> scanner" where
  "drain parse_env s =
     (case find_event_boundary (sc_buf s) of
        None \<Rightarrow> s
      | Some (event_end, consume_to) \<Rightarrow>
          drain parse_env (process_event parse_env (take event_end (sc_buf s))
            (s\<lparr>sc_buf := drop consume_to (sc_buf s)\<rparr>)))"
  by pat_completeness auto
termination
  by (relation "measure (\<lambda>(_, s). length (sc_buf s))") (auto dest: find_event_boundary_bounds)

declare drain.simps [simp del]

definition feed :: "(bytes \<Rightarrow> usage option option) \<Rightarrow> bytes \<Rightarrow> scanner \<Rightarrow> scanner" where
  "feed parse_env chunk s =
     (if sc_overflowed s then s
      else let s' = drain parse_env (s\<lparr>sc_buf := sc_buf s @ chunk\<rparr>)
           in if length (sc_buf s') > max_event_buffer
              then s'\<lparr>sc_overflowed := True, sc_buf := []\<rparr> else s')"

definition feed_all :: "(bytes \<Rightarrow> usage option option) \<Rightarrow> bytes list \<Rightarrow> scanner \<Rightarrow> scanner" where
  "feed_all parse_env chunks s = foldl (\<lambda>s c. feed parse_env c s) s chunks"

section \<open>Splitting a buffer into complete events\<close>

function split_events :: "bytes \<Rightarrow> bytes list \<times> bytes" where
  "split_events buf =
     (case find_event_boundary buf of
        None \<Rightarrow> ([], buf)
      | Some (e, c) \<Rightarrow>
          (case split_events (drop c buf) of (es, rest) \<Rightarrow> (take e buf # es, rest)))"
  by pat_completeness auto
termination
  by (relation "measure length") (auto dest: find_event_boundary_bounds)

declare split_events.simps [simp del]

text \<open>
  What incremental parsing relies on: a boundary found in a prefix of the stream is the
  boundary found in every longer prefix.
\<close>

locale event_splitter =
  fixes boundary :: "'a list \<Rightarrow> (nat \<times> nat) option"
    and split :: "'a list \<Rightarrow> 'a list list \<times> 'a list"
  assumes boundary_bounds: "boundary buf = Some (e, c) \<Longrightarrow> 0 < c \<and> c \<le> length buf"
    and boundary_stable: "boundary buf = Some r \<Longrightarrow> boundary (buf @ later) = Some r"
    and boundary_event: "boundary buf = Some (e, c) \<Longrightarrow> e \<le> c"
    and split_eq: "split buf = (case boundary buf of None \<Rightarrow> ([], buf)
        | Some (e, c) \<Rightarrow> (case split (drop c buf) of (es, rest) \<Rightarrow> (take e buf # es, rest)))"
begin

lemma split_append:
  "split (buf @ later) =
     (case split buf of (es, rest) \<Rightarrow> case split (rest @ later) of (es', rest') \<Rightarrow> (es @ es', rest'))"
proof (induction buf rule: length_induct)
  case (1 buf)
  show ?case
  proof (cases "boundary buf")
    case None
    then have "split buf = ([], buf)" by (subst split_eq) simp
    then show ?thesis by (simp split: prod.splits)
  next
    case (Some r)
    obtain e c where r: "r = (e, c)" by (cases r)
    have c: "0 < c" "c \<le> length buf" and e: "e \<le> c"
      using boundary_bounds Some boundary_event by (auto simp: r)
    then have "length (drop c buf) < length buf" by simp
    with 1 have IH: "split (drop c buf @ later) = (case split (drop c buf) of (es, rest) \<Rightarrow>
        case split (rest @ later) of (es', rest') \<Rightarrow> (es @ es', rest'))" by blast
    show ?thesis
      using Some boundary_stable[OF Some, of later] c e
      by (subst split_eq, subst (2) split_eq) (simp add: r IH split: prod.splits)
  qed
qed

lemma split_rest: "boundary (snd (split buf)) = None"
proof (induction buf rule: length_induct)
  case (1 buf)
  show ?case
  proof (cases "boundary buf")
    case (Some r)
    obtain e c where r: "r = (e, c)" by (cases r)
    with Some boundary_bounds have "length (drop c buf) < length buf" by fastforce
    with 1 have "boundary (snd (split (drop c buf))) = None" by blast
    then show ?thesis using Some r by (subst split_eq) (auto split: prod.splits)
  qed (subst split_eq, simp)
qed

lemma split_idle: "boundary buf = None \<Longrightarrow> split buf = ([], buf)"
  by (subst split_eq) simp

end

lemma byte_at_append [simp]: "i < length buf \<Longrightarrow> byte_at (buf @ later) i = byte_at buf i"
  by (simp add: byte_at_def nth_append)

lemma term_at_stable:
  "term_at buf i = Len l \<Longrightarrow> term_at (buf @ later) i = Len l"
  "i < length buf \<Longrightarrow> term_at buf i = NotTerm \<Longrightarrow> term_at (buf @ later) i = NotTerm"
  by (auto simp: term_at_def byte_at_def nth_append split: option.splits if_splits)

lemma find_from_stable: "find_from buf i = Some r \<Longrightarrow> find_from (buf @ later) i = Some r"
proof (induction buf i rule: find_from.induct)
  case (1 buf i)
  then have i: "i < length buf" by (simp add: find_from.simps[of buf i] split: if_splits)
  show ?case
  proof (cases "term_at buf i")
    case NotTerm
    then show ?thesis
      using 1 i term_at_stable(2)[OF i NotTerm] by (simp add: find_from.simps[of _ i])
  next
    case (Len l)
    show ?thesis
    proof (cases "term_at buf (i + l)")
      case NotTerm
      have "i + l < length buf"
        using "1.prems" i Len NotTerm find_from.simps[of buf "i + l"] by (auto simp: find_from.simps[of buf i] split: if_splits)
      then show ?thesis
        using 1 i Len NotTerm term_at_stable by (simp add: find_from.simps[of _ i])
    qed (use 1 i Len term_at_stable in \<open>simp_all add: find_from.simps[of _ i]\<close>)
  qed (use 1 i in \<open>simp add: find_from.simps[of buf i]\<close>)
qed

interpretation sse: event_splitter find_event_boundary split_events
proof
  show "0 < c \<and> c \<le> length buf" "e \<le> c" if "find_event_boundary buf = Some (e, c)" for buf e c
    using find_event_boundary_bounds[OF that] by auto
  show "find_event_boundary (buf @ later) = Some r" if "find_event_boundary buf = Some r" for buf r later
    using that find_from_stable by (simp add: find_event_boundary_def)
  show "split_events buf = (case find_event_boundary buf of None \<Rightarrow> ([], buf)
      | Some (e, c) \<Rightarrow> (case split_events (drop c buf) of (es, rest) \<Rightarrow> (take e buf # es, rest)))" for buf
    by (rule split_events.simps)
qed

section \<open>Chunking does not matter\<close>

definition process_all :: "(bytes \<Rightarrow> usage option option) \<Rightarrow> bytes list \<Rightarrow> scanner \<Rightarrow> scanner" where
  "process_all p es s = foldl (\<lambda>s e. process_event p e s) s es"

lemma process_all_simps [simp]:
  "process_all p [] s = s"
  "process_all p (e # es) s = process_all p es (process_event p e s)"
  "process_all p (es @ es') s = process_all p es' (process_all p es s)"
  by (simp_all add: process_all_def)

lemma process_event_buf [simp]:
  "process_event p e (s\<lparr>sc_buf := b\<rparr>) = (process_event p e s)\<lparr>sc_buf := b\<rparr>"
  by (auto simp: process_event_def split: option.splits)

lemma process_all_buf [simp]:
  "process_all p es (s\<lparr>sc_buf := b\<rparr>) = (process_all p es s)\<lparr>sc_buf := b\<rparr>"
  by (induction es arbitrary: s) auto

lemma process_all_frame [simp]:
  "sc_buf (process_all p es s) = sc_buf s"
  "sc_overflowed (process_all p es s) = sc_overflowed s"
  by (induction es arbitrary: s) auto

lemma drain_split:
  "drain p s = (case split_events (sc_buf s) of (es, rest) \<Rightarrow> (process_all p es s)\<lparr>sc_buf := rest\<rparr>)"
proof (induction p s rule: drain.induct)
  case (1 p s)
  show ?case
  proof (cases "find_event_boundary (sc_buf s)")
    case None
    then show ?thesis by (simp add: drain.simps[of p s] split_events.simps[of "sc_buf s"])
  next
    case (Some r)
    then show ?thesis using 1[of r]
      by (cases r) (simp add: drain.simps[of p s] split_events.simps[of "sc_buf s"] split: prod.splits)
  qed
qed

lemma feed_all_simps [simp]:
  "feed_all p [] s = s"
  "feed_all p (c # cs) s = feed_all p cs (feed p c s)"
  by (simp_all add: feed_all_def)

lemma overflowed_stays: "sc_overflowed s \<Longrightarrow> feed_all p cs s = s"
  by (induction cs arbitrary: s) (auto simp: feed_def)

lemma feed_eq:
  assumes "\<not> sc_overflowed (feed p c s)"
  shows "feed p c s = (case split_events (sc_buf s @ c) of (es, rest) \<Rightarrow>
    (process_all p es s)\<lparr>sc_buf := rest\<rparr>)"
  using assms by (auto simp: feed_def Let_def drain_split split: prod.splits if_splits)

lemma feed_all_eq:
  assumes "\<not> sc_overflowed (feed_all p cs s)" and "find_event_boundary (sc_buf s) = None"
  shows "feed_all p cs s = (case split_events (sc_buf s @ concat cs) of (es, rest) \<Rightarrow>
    (process_all p es s)\<lparr>sc_buf := rest\<rparr>)"
  using assms
proof (induction cs arbitrary: s)
  case Nil
  then show ?case by (simp add: sse.split_idle)
next
  case (Cons c cs)
  obtain es rest where split: "split_events (sc_buf s @ c) = (es, rest)" by fastforce
  have "\<not> sc_overflowed (feed p c s)" using Cons.prems(1) overflowed_stays by fastforce
  from feed_eq[OF this] have fc: "feed p c s = (process_all p es s)\<lparr>sc_buf := rest\<rparr>"
    using split by simp
  have "find_event_boundary rest = None" using sse.split_rest[of "sc_buf s @ c"] split by simp
  then have "feed_all p cs (feed p c s) = (case split_events (rest @ concat cs) of (es', rest') \<Rightarrow>
      (process_all p es' (feed p c s))\<lparr>sc_buf := rest'\<rparr>)"
    using Cons.IH[of "feed p c s"] Cons.prems(1) fc by simp
  then show ?case
    using sse.split_append[of "sc_buf s @ c" "concat cs"] split by (simp add: fc split: prod.splits)
qed

lemma new_scanner_buf [simp]:
  "sc_buf new_scanner = []" "sc_overflowed new_scanner = False"
  by (simp_all add: new_scanner_def)

lemma boundary_empty [simp]: "find_event_boundary [] = None"
  by (simp add: find_event_boundary_def find_from.simps)

definition scanner_ok :: "scanner \<Rightarrow> bool" where
  "scanner_ok s = (if sc_overflowed s then sc_buf s = []
     else length (sc_buf s) \<le> max_event_buffer \<and> find_event_boundary (sc_buf s) = None)"

lemma feed_ok: "scanner_ok s \<Longrightarrow> scanner_ok (feed p c s)"
  using sse.split_rest[of "sc_buf s @ c"]
  by (auto simp: scanner_ok_def feed_def Let_def drain_split split: prod.splits)

lemma feed_all_ok: "scanner_ok s \<Longrightarrow> scanner_ok (feed_all p cs s)"
  by (induction cs arbitrary: s) (auto simp: feed_ok)

text \<open>A stream that fits the buffer as a whole cannot overflow it.\<close>

lemma split_events_length: "split_events buf = (es, rest) \<Longrightarrow> length rest \<le> length buf"
proof (induction buf arbitrary: es rest rule: length_induct)
  case (1 buf)
  show ?case
  proof (cases "find_event_boundary buf")
    case (Some r)
    obtain e c where r: "r = (e, c)" by (cases r)
    obtain es' where "split_events (drop c buf) = (es', rest)"
      using "1.prems" Some r by (subst (asm) split_events.simps) (auto split: prod.splits)
    moreover have "0 < c" "c \<le> length buf" using find_event_boundary_bounds[of buf e c] Some r by auto
    then have "length (drop c buf) < length buf" by simp
    ultimately have "length rest \<le> length (drop c buf)" using 1 by blast
    then show ?thesis by simp
  qed (use "1.prems" in \<open>simp add: split_events.simps[of buf]\<close>)
qed

lemma short_stream_no_overflow:
  assumes "\<not> sc_overflowed s" "length (sc_buf s) + length (concat cs) \<le> max_event_buffer"
  shows "\<not> sc_overflowed (feed_all p cs s)"
  using assms
proof (induction cs arbitrary: s)
  case (Cons c cs)
  obtain es rest where split: "split_events (sc_buf s @ c) = (es, rest)" by fastforce
  with split_events_length have "length rest \<le> length (sc_buf s @ c)" by blast
  with Cons.prems split have "\<not> sc_overflowed (feed p c s)"
    "length (sc_buf (feed p c s)) + length (concat cs) \<le> max_event_buffer"
    by (auto simp: feed_def Let_def drain_split)
  then show ?case using Cons.IH by simp
qed simp

section \<open>Properties\<close>

text \<open>How the network splits the stream does not matter: two chunk sequences with the same
  bytes leave the scanner in the same state (same usage, same end marker, same pending
  bytes), unless one of them overflowed the buffer.\<close>

theorem chunking_irrelevant:
  assumes "\<not> sc_overflowed (feed_all p cs new_scanner)"
    and "\<not> sc_overflowed (feed_all p ds new_scanner)"
    and "concat cs = concat ds"
  shows "feed_all p cs new_scanner = feed_all p ds new_scanner"
  using assms by (simp add: feed_all_eq)

theorem chunking_irrelevant_witness:
  "feed_all (\<lambda>_. None) [''data: x'' @ [CR], [LF, CR, LF] @ ''data''] new_scanner =
   feed_all (\<lambda>_. None) [''data: x'' @ [CR, LF, CR, LF] @ ''data''] new_scanner"
  by (rule chunking_irrelevant)
    ((rule short_stream_no_overflow; simp add: max_event_buffer_def)+, simp)

text \<open>C39: The scanner's memory is bounded and it never holds a complete event back: after any
  chunks, either it has given up (and freed its buffer) or it buffers at most one mebibyte,
  in which no complete event remains.\<close>

theorem scanner_bounded:
  "if sc_overflowed (feed_all p cs new_scanner)
   then sc_buf (feed_all p cs new_scanner) = []
   else length (sc_buf (feed_all p cs new_scanner)) \<le> 1024 * 1024 \<and>
        find_event_boundary (sc_buf (feed_all p cs new_scanner)) = None"
  using feed_all_ok[of new_scanner p cs] by (auto simp: scanner_ok_def max_event_buffer_def split: if_splits)

text \<open>Overflow only stops the accounting: once the scanner has overflowed, no further chunk
  changes its state.\<close>

theorem overflow_is_final:
  assumes "sc_overflowed (feed_all p cs s)"
  shows "feed_all p (cs @ ds) s = feed_all p cs s"
  using overflowed_stays[OF assms, of p ds] by (simp add: feed_all_def)

theorem overflow_is_final_witness:
  "feed_all (\<lambda>_. None) ([] @ [''x'']) (new_scanner\<lparr>sc_overflowed := True\<rparr>) =
   feed_all (\<lambda>_. None) [] (new_scanner\<lparr>sc_overflowed := True\<rparr>)"
  by (rule overflow_is_final) simp

end
