(* ===== verification/Event_Stream.thy ===== *)
theory Event_Stream
  imports Scanner
begin

text \<open>
  The abstract specification of the scanner: the event-stream format read line by line.  A line
  ends with LF, CR LF or a CR that is followed by another byte; data fields accumulate; an
  empty line dispatches the accumulated payloads, joined by LF, if there are any.  The scanner,
  which looks for blank-line separators in its byte buffer and re-splits each event, computes
  exactly the dispatched payloads.
\<close>

section \<open>Lines\<close>

fun split_line :: "bytes \<Rightarrow> (bytes \<times> bytes) option" where
  "split_line [] = None"
| "split_line (c # cs) =
     (if c = LF then Some ([], cs)
      else if c = CR then (case cs of
          [] \<Rightarrow> None
        | d # ds \<Rightarrow> Some ([], if d = LF then ds else cs))
      else map_option (\<lambda>(l, rest). (c # l, rest)) (split_line cs))"

lemma split_line_length: "split_line buf = Some (l, rest) \<Longrightarrow> length rest + length l < length buf"
  by (induction buf arbitrary: l rest rule: split_line.induct) (fastforce split: if_splits list.splits)+

function stream_lines :: "bytes \<Rightarrow> bytes list" where
  "stream_lines buf =
     (case split_line buf of None \<Rightarrow> [] | Some (l, rest) \<Rightarrow> l # stream_lines rest)"
  by pat_completeness auto
termination
  by (relation "measure length") (auto dest: split_line_length)

declare stream_lines.simps [simp del]

section \<open>Dispatch\<close>

definition data_field :: "bytes \<Rightarrow> bytes option" where
  "data_field line =
     (if take 5 line = ''data:''
      then Some (if take 1 (drop 5 line) = '' '' then drop 6 line else drop 5 line)
      else if line = ''data'' then Some [] else None)"

fun dispatch :: "bytes list \<Rightarrow> bytes list \<Rightarrow> bytes list list" where
  "dispatch [] acc = []"
| "dispatch (line # ls) acc =
     (if line = [] then (if acc = [] then dispatch ls [] else acc # dispatch ls [])
      else case data_field line of None \<Rightarrow> dispatch ls acc | Some p \<Rightarrow> dispatch ls (acc @ [p]))"

fun join_lf :: "bytes list \<Rightarrow> bytes" where
  "join_lf [] = []"
| "join_lf [p] = p"
| "join_lf (p # q # ps) = p @ LF # join_lf (q # ps)"

definition stream_payloads :: "bytes \<Rightarrow> bytes list" where
  "stream_payloads buf = map join_lf (dispatch (stream_lines buf) [])"

section \<open>The boundary search follows the lines\<close>

lemma byte_at_shift [simp]: "byte_at (pre @ buf) (length pre + i) = byte_at buf i"
  by (simp add: byte_at_def)

lemma term_at_shift [simp]: "term_at (pre @ buf) (length pre + i) = term_at buf i"
  by (simp only: term_at_def byte_at_shift add.assoc)

definition shift :: "nat \<Rightarrow> (nat \<times> nat) option \<Rightarrow> (nat \<times> nat) option" where
  "shift k = map_option (\<lambda>(e, c). (k + e, k + c))"

lemma shift_simps [simp]: "shift k None = None" "shift k (Some (e, c)) = Some (k + e, k + c)"
  by (simp_all add: shift_def)

lemma find_from_shift: "find_from (pre @ buf) (length pre + i) = shift (length pre) (find_from buf i)"
proof (induction buf i rule: find_from.induct)
  case (1 buf i)
  have "find_from (pre @ buf) (length pre + (i + l)) = shift (length pre) (find_from buf (i + l))"
    if "i < length buf" "term_at buf i = Len l" "term_at buf (i + l) = NotTerm" for l
    using 1 that by simp
  moreover have "find_from (pre @ buf) (length pre + (i + 1)) = shift (length pre) (find_from buf (i + 1))"
    if "i < length buf" "term_at buf i = NotTerm"
    using 1 that by simp
  moreover have "term_at (pre @ buf) (length pre + i + l) = term_at buf (i + l)" for l
    using term_at_shift[of pre buf "i + l"] by (simp add: add.assoc)
  ultimately show ?case
    by (simp add: find_from.simps[of _ "length pre + i"] find_from.simps[of _ i] add.assoc split: line_term.splits)
qed

lemma find_event_boundary_at:
  assumes "k \<le> length buf"
  shows "find_from buf k = shift k (find_event_boundary (drop k buf))"
  using find_from_shift[of "take k buf" "drop k buf" 0] assms by (simp add: find_event_boundary_def)

lemma term_at_0:
  "term_at [] i = NotTerm"
  "term_at (c # cs) 0 = (if c = LF then Len 1
     else if c = CR then (case cs of [] \<Rightarrow> Incomplete | d # _ \<Rightarrow> if d = LF then Len 2 else Len 1)
     else NotTerm)"
  by (auto simp: term_at_def byte_at_def split: list.splits)

text \<open>What the search does at the first line of the buffer.\<close>

lemma boundary_no_line: "split_line buf = None \<Longrightarrow> find_event_boundary buf = None"
proof (induction buf rule: split_line.induct)
  case (2 c cs)
  then show ?case
    using find_event_boundary_at[of 1 "c # cs"]
    by (auto simp: find_event_boundary_def find_from.simps[of _ 0] term_at_0 split: if_splits list.splits)
qed (simp add: find_event_boundary_def find_from.simps)

lemma boundary_first_line:
  assumes "split_line buf = Some (l, rest)"
  shows "find_event_boundary buf =
    (let k = length buf - length rest in
     case term_at rest 0 of
       NotTerm \<Rightarrow> shift k (find_event_boundary rest)
     | Incomplete \<Rightarrow> None
     | Len l2 \<Rightarrow> Some (length l, k + l2))"
  using assms
proof (induction buf arbitrary: l rest rule: split_line.induct)
  case (2 c cs)
  show ?case
  proof (cases "c = LF \<or> c = CR")
    case True
    then obtain t where t: "term_at (c # cs) 0 = Len t" "rest = drop t (c # cs)" "l = []" "t \<le> length (c # cs)" "0 < t"
      using "2.prems" by (auto simp: term_at_0 split: if_splits list.splits)
    have "term_at (c # cs) t = term_at rest 0"
      using term_at_shift[of "take t (c # cs)" "drop t (c # cs)" 0] t(2,4) by simp
    then show ?thesis
      using t find_event_boundary_at[of t "c # cs"]
      by (simp add: find_event_boundary_def[of "c # cs"] find_from.simps[of "c # cs" 0] Let_def split: line_term.splits)
  next
    case False
    with "2.prems" obtain l' where l': "split_line cs = Some (l', rest)" "l = c # l'" by auto
    have "length rest + length l' < length cs" using split_line_length[OF l'(1)] .
    moreover have "find_event_boundary (c # cs) = shift 1 (find_event_boundary cs)"
      using False find_event_boundary_at[of 1 "c # cs"]
      by (simp add: find_event_boundary_def[of "c # cs"] find_from.simps[of "c # cs" 0] term_at_0)
    ultimately show ?thesis
      using "2.IH"[OF _ _ l'(1)] False l'(2)
      by (cases "find_event_boundary rest") (auto simp: Let_def split: line_term.splits)
  qed
qed simp


section \<open>Lines of an event\<close>

lemma term_at_0_cases:
  "term_at rest 0 = Len l \<Longrightarrow> split_line rest = Some ([], drop l rest)"
  "term_at rest 0 = Incomplete \<Longrightarrow> rest = [CR]"
  "term_at rest 0 = NotTerm \<Longrightarrow> split_line rest = Some (l', rest') \<Longrightarrow> l' \<noteq> []"
  by (cases rest; auto simp: term_at_0 split: if_splits list.splits)+

lemma split_line_no_terminator:
  "split_line buf = Some (l, rest) \<Longrightarrow> LF \<notin> set l \<and> CR \<notin> set l"
  by (induction buf arbitrary: l rest rule: split_line.induct) (fastforce split: if_splits list.splits)+

lemma no_terminator_split_line: "LF \<notin> set l \<Longrightarrow> CR \<notin> set l \<Longrightarrow> split_line l = None"
  by (induction l) auto

lemma split_line_drop: "split_line buf = Some (l, rest) \<Longrightarrow> drop (length buf - length rest) buf = rest"
proof (induction buf arbitrary: l rest rule: split_line.induct)
  case (2 c cs)
  show ?case
  proof (cases "c = LF \<or> c = CR")
    case False
    with "2.prems" obtain l' where l': "split_line cs = Some (l', rest)" by auto
    have "length rest < length cs" using split_line_length[OF l'] by simp
    then show ?thesis using "2.IH"[OF _ _ l'] False by (simp add: Suc_diff_le less_imp_le)
  qed (use "2.prems" in \<open>auto split: if_splits list.splits\<close>)
qed simp

lemma split_line_take:
  assumes "split_line buf = Some (l, rest)" "0 < n" "n \<le> length rest"
  shows "split_line (take (length buf - length rest + n) buf) = Some (l, take n rest)"
  using assms
proof (induction buf arbitrary: l rest rule: split_line.induct)
  case (2 c cs)
  show ?case
  proof (cases "c = LF \<or> c = CR")
    case True
    with 2 show ?thesis by (auto simp: take_Cons' Suc_diff_le split: if_splits list.splits)
  next
    case False
    with "2.prems" obtain l' where l': "split_line cs = Some (l', rest)" "l = c # l'" by auto
    have "length rest < length cs" using split_line_length[OF l'(1)] by simp
    then have "length (c # cs) - length rest + n = Suc (length cs - length rest + n)" by simp
    then show ?thesis using "2.IH"[OF _ _ l'(1)] False l'(2) "2.prems" by simp
  qed
qed simp

function event_lines :: "bytes \<Rightarrow> bytes list" where
  "event_lines ev =
     (case split_line ev of None \<Rightarrow> [ev] | Some (l, rest) \<Rightarrow> l # event_lines rest)"
  by pat_completeness auto
termination
  by (relation "measure length") (auto dest: split_line_length)

declare event_lines.simps [simp del]

lemma event_lines_nonempty [simp]: "event_lines ev \<noteq> []"
  by (subst event_lines.simps) (simp split: option.splits prod.splits)

definition prepend :: "bytes \<Rightarrow> bytes list \<Rightarrow> bytes list" where
  "prepend m ls = (case ls of [] \<Rightarrow> [] | l # ls \<Rightarrow> (m @ l) # ls)"

lemma prepend_Nil [simp]: "prepend [] ls = ls"
  by (cases ls) (simp_all add: prepend_def)

lemma event_lines_ordinary:
  "c \<noteq> LF \<Longrightarrow> c \<noteq> CR \<Longrightarrow> event_lines (c # cs) = prepend [c] (event_lines cs)"
  by (simp add: event_lines.simps[of "c # cs"] event_lines.simps[of cs] prepend_def split: option.splits prod.splits)

lemma prepend_prepend [simp]: "prepend m (prepend n ls) = prepend (m @ n) ls"
  by (simp add: prepend_def split: list.splits)

text \<open>The index loop of \<open>process_event\<close> visits exactly the lines of the event.\<close>

lemma collect_lines_eq:
  "collect_lines (pre @ m @ suf) (length pre + length m) (length pre) acc =
     foldl (\<lambda>a l. collect_data_line l a) acc (prepend m (event_lines suf))"
proof (induction suf arbitrary: pre m acc rule: length_induct)
  case (1 suf)
  let ?ev = "pre @ m @ suf" and ?i = "length pre + length m"
  have t: "term_at ?ev ?i = term_at suf 0"
    using term_at_shift[of "pre @ m" suf 0] by simp
  have IH: "collect_lines (p @ n @ ys) (length p + length n) (length p) a =
      foldl (\<lambda>a l. collect_data_line l a) a (prepend n (event_lines ys))"
    if "length ys < length suf" for ys p n a
    using 1 that by blast
  show ?case
  proof (cases suf)
    case Nil
    then show ?thesis
      using t by (subst collect_lines.simps) (simp add: term_at_0 event_lines.simps prepend_def)
  next
    case (Cons c cs)
    show ?thesis
    proof (cases "term_at suf 0")
      case (Len l)
      have bounds: "0 < l" "l \<le> length suf" using term_at_Len_bounds[OF Len] by auto
      have "collect_lines ((pre @ m @ take l suf) @ [] @ drop l suf) (length (pre @ m @ take l suf) + length ([] :: bytes))
          (length (pre @ m @ take l suf)) acc' =
          foldl (\<lambda>a l. collect_data_line l a) acc' (prepend [] (event_lines (drop l suf)))" for acc'
        by (rule IH) (use bounds in simp)
      then have "collect_lines ?ev (?i + l) (?i + l) acc' =
          foldl (\<lambda>a l. collect_data_line l a) acc' (event_lines (drop l suf))" for acc'
        using bounds by (simp add: add.assoc)
      moreover have "event_lines suf = [] # event_lines (drop l suf)"
        using term_at_0_cases(1)[OF Len] by (simp add: event_lines.simps[of suf])
      ultimately show ?thesis
        using t Len by (subst collect_lines.simps) (simp add: prepend_def)
    next
      case NotTerm
      then have c: "c \<noteq> LF" "c \<noteq> CR" using Cons by (auto simp: term_at_0 split: if_splits list.splits)
      have "collect_lines (pre @ (m @ [c]) @ cs) (length pre + length (m @ [c])) (length pre) acc =
          foldl (\<lambda>a l. collect_data_line l a) acc (prepend (m @ [c]) (event_lines cs))"
        by (rule IH) (simp add: Cons)
      then show ?thesis
        using t NotTerm Cons c by (subst collect_lines.simps) (simp add: event_lines_ordinary)
    next
      case Incomplete
      then have suf: "suf = [CR]" by (rule term_at_0_cases(2))
      have "collect_lines (pre @ (m @ [CR]) @ []) (length pre + length (m @ [CR])) (length pre) acc =
          foldl (\<lambda>a l. collect_data_line l a) acc (prepend (m @ [CR]) (event_lines []))"
        by (rule IH) (simp add: suf)
      then show ?thesis
        using t Incomplete suf by (subst collect_lines.simps) (simp add: event_lines.simps prepend_def)
    qed
  qed
qed

section \<open>Payloads\<close>

definition payloads :: "bytes list \<Rightarrow> bytes list" where
  "payloads ls = List.map_filter data_field ls"

lemma payloads_simps [simp]:
  "payloads [] = []"
  "payloads (l # ls) = (case data_field l of None \<Rightarrow> payloads ls | Some p \<Rightarrow> p # payloads ls)"
  by (simp_all add: payloads_def map_filter_simps split: option.splits)

lemma payloads_append [simp]: "payloads (ls @ ls') = payloads ls @ payloads ls'"
  by (induction ls) (auto split: option.splits)

lemma data_field_empty [simp]: "data_field [] = None"
  by (simp add: data_field_def)

lemma collect_data_line_eq:
  "collect_data_line line (data, saw) =
     (case data_field line of None \<Rightarrow> (data, saw)
      | Some p \<Rightarrow> ((if saw then data @ [LF] else data) @ p, True))"
proof (cases "take 5 line = ''data:''")
  case True
  then obtain rest where line: "line = ''data:'' @ rest" by (metis append_take_drop_id)
  show ?thesis
    by (cases rest) (auto simp: line collect_data_line_def data_field_def Let_def split: option.splits)
next
  case False
  then have "strip_prefix ''data:'' line = None" by (cases "strip_prefix ''data:'' line") auto
  with False show ?thesis by (simp add: collect_data_line_def data_field_def)
qed

lemma join_lf_snoc: "ps \<noteq> [] \<Longrightarrow> join_lf (ps @ [p]) = join_lf ps @ LF # p"
  by (induction ps rule: join_lf.induct) auto

lemma collect_fold:
  "foldl (\<lambda>a l. collect_data_line l a) ([], False) ls = (join_lf (payloads ls), payloads ls \<noteq> [])"
  by (induction ls rule: rev_induct) (auto simp: collect_data_line_eq join_lf_snoc split: option.splits)

lemma event_data_eq:
  "event_data ev = (let ps = payloads (event_lines ev) in if ps = [] then None else Some (join_lf ps))"
  using collect_lines_eq[of "[]" "[]" ev] by (simp add: event_data_def collect_fold Let_def)

lemma dispatch_group:
  assumes "[] \<notin> set ls"
  shows "dispatch (ls @ [] # later) acc =
      (if acc @ payloads ls = [] then [] else [acc @ payloads ls]) @ dispatch later []"
    and "dispatch ls acc = []"
  using assms by (induction ls arbitrary: acc) (auto split: option.splits)

lemma dispatch_first_group:
  assumes "[] \<notin> set (tl ls)"
  shows "ls \<noteq> [] \<Longrightarrow> dispatch (ls @ [] # later) [] =
      (if payloads ls = [] then [] else [payloads ls]) @ dispatch later []"
    and "dispatch ls [] = []"
proof -
  have "l = [] \<or> [] \<notin> set (l # tl ls)" for l :: bytes using assms by auto
  then show "ls \<noteq> [] \<Longrightarrow> dispatch (ls @ [] # later) [] =
      (if payloads ls = [] then [] else [payloads ls]) @ dispatch later []"
    and "dispatch ls [] = []"
    using dispatch_group[of ls] dispatch_group[of "tl ls"] assms by (cases ls; fastforce)+
qed

section \<open>Events and groups of lines\<close>

lemma event_lines_first_nonempty:
  assumes "term_at rest 0 = NotTerm" "rest \<noteq> []" "0 < n"
  shows "hd (event_lines (take n rest)) \<noteq> []"
proof -
  obtain c cs where rest: "rest = c # cs" using assms(2) by (cases rest) auto
  with assms have "c \<noteq> LF" "c \<noteq> CR" by (auto simp: term_at_0 split: if_splits list.splits)
  moreover have "take n rest = c # take (n - 1) cs" using rest assms(3) by (simp add: take_Cons')
  ultimately show ?thesis
    by (simp add: event_lines_ordinary prepend_def split: list.splits)
qed

lemma boundary_after_text:
  assumes "term_at rest 0 = NotTerm" "find_event_boundary rest = Some (e, c)"
  shows "0 < e" "e \<le> length rest" "rest \<noteq> []"
proof -
  have "find_from rest 1 = Some (e, c)"
    using assms by (simp add: find_event_boundary_def find_from.simps[of rest 0] split: if_splits)
  then show "0 < e" "e \<le> length rest" "rest \<noteq> []" using find_from_bounds by fastforce+
qed

lemma boundary_lines:
  assumes "find_event_boundary buf = Some (e, c)"
  shows "stream_lines buf = event_lines (take e buf) @ [] # stream_lines (drop c buf) \<and>
    [] \<notin> set (tl (event_lines (take e buf)))"
  using assms
proof (induction buf arbitrary: e c rule: length_induct)
  case (1 buf)
  obtain l rest where split: "split_line buf = Some (l, rest)"
    using 1(2) boundary_no_line[of buf] by (cases "split_line buf") auto
  let ?k = "length buf - length rest"
  have drop_k: "drop ?k buf = rest" by (rule split_line_drop[OF split])
  have len: "length rest + length l < length buf" by (rule split_line_length[OF split])
  have lines: "stream_lines buf = l # stream_lines rest" by (simp add: stream_lines.simps[of buf] split)
  note first = boundary_first_line[OF split, unfolded Let_def]
  show ?case
  proof (cases "term_at rest 0")
    case (Len l2)
    with first 1(2) have e: "e = length l" and c: "c = ?k + l2" by auto
    have "split_line (take e buf) = None" "take e buf = l"
    proof -
      show take: "take e buf = l" unfolding e using split
        by (induction buf arbitrary: l rest rule: split_line.induct) (fastforce split: if_splits list.splits)+
      show "split_line (take e buf) = None"
        unfolding take using split_line_no_terminator[OF split] no_terminator_split_line by blast
    qed
    moreover have "drop c buf = drop l2 rest" using drop_k by (simp add: c add.commute flip: drop_drop)
    moreover have "stream_lines rest = [] # stream_lines (drop l2 rest)"
      using term_at_0_cases(1)[OF Len] by (simp add: stream_lines.simps[of rest])
    ultimately show ?thesis by (simp add: lines event_lines.simps[of l])
  next
    case NotTerm
    with first 1(2) have "shift ?k (find_event_boundary rest) = Some (e, c)" by simp
    then obtain e' c' where rec: "find_event_boundary rest = Some (e', c')"
      and e: "e = ?k + e'" and c: "c = ?k + c'"
      by (cases "find_event_boundary rest") auto
    note b = boundary_after_text[OF NotTerm rec]
    have IH: "stream_lines rest = event_lines (take e' rest) @ [] # stream_lines (drop c' rest)"
        "[] \<notin> set (tl (event_lines (take e' rest)))"
      using 1(1) rec len by auto
    have "drop c buf = drop c' rest" using drop_k by (simp add: c add.commute flip: drop_drop)
    moreover have ev: "event_lines (take e buf) = l # event_lines (take e' rest)"
      using split_line_take[OF split b(1,2)] by (simp add: e event_lines.simps[of "take (?k + e') buf"])
    moreover have "[] \<notin> set (event_lines (take e' rest))"
      using IH(2) event_lines_first_nonempty[OF NotTerm b(3,1)]
      by (cases "event_lines (take e' rest)") auto
    ultimately show ?thesis using IH(1) by (simp add: lines)
  qed (use first 1(2) in simp)
qed

lemma no_boundary_lines:
  assumes "find_event_boundary buf = None"
  shows "[] \<notin> set (tl (stream_lines buf))"
  using assms
proof (induction buf rule: length_induct)
  case (1 buf)
  show ?case
  proof (cases "split_line buf")
    case None
    then show ?thesis by (simp add: stream_lines.simps[of buf])
  next
    case (Some r)
    obtain l rest where split: "split_line buf = Some (l, rest)" using Some by (cases r) auto
    have len: "length rest < length buf" using split_line_length[OF split] by simp
    have lines: "tl (stream_lines buf) = stream_lines rest" by (simp add: stream_lines.simps[of buf] split)
    note first = boundary_first_line[OF split, unfolded Let_def]
    show ?thesis
    proof (cases "term_at rest 0")
      case NotTerm
      with first 1(2) have "find_event_boundary rest = None" by (auto simp: shift_def)
      with 1(1) len have "[] \<notin> set (tl (stream_lines rest))" by blast
      moreover have "stream_lines rest = [] \<or> hd (stream_lines rest) \<noteq> []"
        by (cases "split_line rest")
          (auto simp: stream_lines.simps[of rest] dest: term_at_0_cases(3)[OF NotTerm])
      ultimately show ?thesis unfolding lines by (cases "stream_lines rest") auto
    next
      case Incomplete
      then have "rest = [CR]" by (rule term_at_0_cases(2))
      then show ?thesis unfolding lines by (simp add: stream_lines.simps)
    qed (use first 1(2) in simp)
  qed
qed

lemma split_events_payloads:
  "List.map_filter event_data (fst (split_events buf)) = stream_payloads buf"
proof (induction buf rule: length_induct)
  case (1 buf)
  show ?case
  proof (cases "find_event_boundary buf")
    case None
    have "dispatch (stream_lines buf) [] = []"
      by (rule dispatch_first_group(2)[OF no_boundary_lines[OF None]])
    then show ?thesis using None by (simp add: sse.split_idle stream_payloads_def map_filter_simps)
  next
    case (Some r)
    obtain e c where bd: "find_event_boundary buf = Some (e, c)" using Some by (cases r) auto
    have "0 < c" "c \<le> length buf" using find_event_boundary_bounds[OF bd] by auto
    then have "length (drop c buf) < length buf" by simp
    with 1 have IH: "List.map_filter event_data (fst (split_events (drop c buf))) = stream_payloads (drop c buf)"
      by blast
    note lines = boundary_lines[OF bd]
    show ?thesis
      using bd IH lines dispatch_first_group(1)[of "event_lines (take e buf)" "stream_lines (drop c buf)"]
      by (cases "split_events (drop c buf)")
        (simp add: split_events.simps[of buf] map_filter_simps event_data_eq[of "take e buf"] Let_def
          stream_payloads_def)
  qed
qed

section \<open>Refinement\<close>

definition done_marker :: bytes where
  "done_marker = ''[DONE]''"

text \<open>The usage a payload carries, if any.\<close>

definition usage_of :: "(bytes \<Rightarrow> usage option option) \<Rightarrow> bytes \<Rightarrow> usage option" where
  "usage_of p data =
     (if data \<noteq> done_marker \<and> (\<exists>before after. data = before @ ''\"usage\"'' @ after)
      then (case p data of Some u \<Rightarrow> u | None \<Rightarrow> None) else None)"

definition last_option :: "'a list \<Rightarrow> 'a option" where
  "last_option xs = (if xs = [] then None else Some (last xs))"

lemma windows_iff: "list_ex (\<lambda>w. w = pat) (windows (length pat) xs) \<longleftrightarrow> (\<exists>a b. xs = a @ pat @ b)"
proof
  assume "list_ex (\<lambda>w. w = pat) (windows (length pat) xs)"
  then obtain i where "take (length pat) (drop i xs) = pat"
    by (auto simp: windows_def list_ex_iff) (metis (full_types))
  then have "xs = take i xs @ pat @ drop (length pat) (drop i xs)" by (metis append_take_drop_id)
  then show "\<exists>a b. xs = a @ pat @ b" by blast
next
  assume "\<exists>a b. xs = a @ pat @ b"
  then obtain a b where "xs = a @ pat @ b" by blast
  then have "take (length pat) (drop (length a) xs) = pat" "length a < length xs + 1 - length pat" by auto
  then show "list_ex (\<lambda>w. w = pat) (windows (length pat) xs)"
    by (auto simp: windows_def list_ex_iff intro!: image_eqI[of _ _ "length a"])
qed

lemma windows_usage:
  "list_ex (\<lambda>w. w = ''\"usage\"'') (windows 7 xs) \<longleftrightarrow> (\<exists>a b. xs = a @ ''\"usage\"'' @ b)"
proof -
  have "length ''\"usage\"'' = 7" by simp
  then show ?thesis using windows_iff[of "''\"usage\"''" xs] by (simp only:)
qed

lemma process_event_effect:
  "sc_saw_done (process_event p e s) \<longleftrightarrow> sc_saw_done s \<or> event_data e = Some done_marker"
  "sc_last_usage (process_event p e s) =
     (case event_data e of None \<Rightarrow> sc_last_usage s
      | Some d \<Rightarrow> (case usage_of p d of None \<Rightarrow> sc_last_usage s | Some u \<Rightarrow> Some u))"
  by (auto simp: process_event_def usage_of_def done_marker_def windows_usage split: option.splits)

lemma process_all_effect:
  "sc_saw_done (process_all p es s) \<longleftrightarrow>
     sc_saw_done s \<or> done_marker \<in> set (List.map_filter event_data es)"
  "sc_last_usage (process_all p es s) =
     (case last_option (List.map_filter (usage_of p) (List.map_filter event_data es)) of
        None \<Rightarrow> sc_last_usage s | Some u \<Rightarrow> Some u)"
  by (induction es arbitrary: s)
    (auto simp: process_event_effect map_filter_simps last_option_def split: option.splits)

text \<open>C10: The scanner refines the line-based event-stream format: after any chunks (short of an
  overflow) it has seen the end marker exactly if the stream dispatches the payload [DONE],
  and its usage is the one of the last dispatched payload that mentions "usage" and parses to
  a usage object.\<close>

theorem scanner_refines_event_stream:
  assumes "\<not> sc_overflowed (feed_all p cs new_scanner)"
  shows "sc_saw_done (feed_all p cs new_scanner) = (done_marker \<in> set (stream_payloads (concat cs))) \<and>
    sc_last_usage (feed_all p cs new_scanner) =
      last_option (List.map_filter (usage_of p) (stream_payloads (concat cs)))"
  using feed_all_eq[OF assms] split_events_payloads[of "concat cs"]
  by (cases "split_events (concat cs)")
    (auto simp: process_all_effect new_scanner_def split: option.splits)

theorem scanner_refines_event_stream_witness:
  "sc_saw_done (feed_all (\<lambda>_. None) [''data: [DO'', ''NE]'' @ [LF, LF]] new_scanner) =
     (done_marker \<in> set (stream_payloads (concat [''data: [DO'', ''NE]'' @ [LF, LF]]))) \<and>
   sc_last_usage (feed_all (\<lambda>_. None) [''data: [DO'', ''NE]'' @ [LF, LF]] new_scanner) =
     last_option (List.map_filter (usage_of (\<lambda>_. None))
       (stream_payloads (concat [''data: [DO'', ''NE]'' @ [LF, LF]])))"
  by (rule scanner_refines_event_stream)
    (rule short_stream_no_overflow; simp add: max_event_buffer_def)

end
