(* ===== verification/Budget.thy ===== *)
theory Budget
  imports Scanner "HOL-Library.Multiset"
begin

text \<open>
  \<open>src/budget.rs\<close>: token-budget accounting.  The ledger is passed as a state; the atomic counters
  of a key are a record of \<^typ>\<open>64 word\<close>s, whose \<open>fetch_add\<close> wraps around.  The snapshot file
  lives in an explicit file system; the JSON printer and parser are arguments.
\<close>

section \<open>Limits and counters\<close>

record budget_limit =
  bl_max_prompt :: "u64 option"
  bl_max_completion :: "u64 option"
  bl_max_total :: "u64 option"

definition budget_unlimited :: budget_limit where
  "budget_unlimited = \<lparr>bl_max_prompt = None, bl_max_completion = None, bl_max_total = None\<rparr>"

record key_counters =
  kc_prompt :: u64
  kc_completion :: u64
  kc_total :: u64

definition fresh_counters :: key_counters where
  "fresh_counters = \<lparr>kc_prompt = 0, kc_completion = 0, kc_total = 0\<rparr>"

definition add_usage :: "usage \<Rightarrow> key_counters \<Rightarrow> key_counters" where
  "add_usage u c = c\<lparr>kc_prompt := kc_prompt c + us_prompt u,
     kc_completion := kc_completion c + us_completion u, kc_total := kc_total c + us_total u\<rparr>"

record usage_snapshot =
  sn_prompt :: u64
  sn_completion :: u64
  sn_total :: u64

definition counters_snapshot :: "key_counters \<Rightarrow> usage_snapshot" where
  "counters_snapshot c =
     \<lparr>sn_prompt = kc_prompt c, sn_completion = kc_completion c, sn_total = kc_total c\<rparr>"

definition counters_restore :: "usage_snapshot \<Rightarrow> key_counters \<Rightarrow> key_counters" where
  "counters_restore sn c = c\<lparr>kc_prompt := sn_prompt sn, kc_completion := sn_completion sn,
     kc_total := sn_total sn\<rparr>"

datatype budget_exceeded =
    PromptTokens u64 u64
  | CompletionTokens u64 u64
  | TotalTokens u64 u64

fun show_budget_exceeded :: "budget_exceeded \<Rightarrow> string" where
  "show_budget_exceeded (PromptTokens used limit) =
     ''prompt token budget exceeded ('' @ show_nat (unat used) @ ''/'' @ show_nat (unat limit) @ '')''"
| "show_budget_exceeded (CompletionTokens used limit) =
     ''completion token budget exceeded ('' @ show_nat (unat used) @ ''/'' @ show_nat (unat limit) @ '')''"
| "show_budget_exceeded (TotalTokens used limit) =
     ''total token budget exceeded ('' @ show_nat (unat used) @ ''/'' @ show_nat (unat limit) @ '')''"

text \<open>
  The sums \<open>current + proposed\<close> are those of the release profile: they wrap around.  (With
  overflow checks they would panic instead.)
\<close>

definition would_exceed :: "key_counters \<Rightarrow> budget_limit \<Rightarrow> usage \<Rightarrow> budget_exceeded option" where
  "would_exceed c limit proposed =
     (case (case bl_max_prompt limit of
          Some mx \<Rightarrow> if kc_prompt c + us_prompt proposed > mx
                     then Some (PromptTokens (kc_prompt c) mx) else None
        | None \<Rightarrow> None) of
      Some x \<Rightarrow> Some x
    | None \<Rightarrow>
     (case (case bl_max_completion limit of
          Some mx \<Rightarrow> if kc_completion c + us_completion proposed > mx
                     then Some (CompletionTokens (kc_completion c) mx) else None
        | None \<Rightarrow> None) of
      Some x \<Rightarrow> Some x
    | None \<Rightarrow>
     (case bl_max_total limit of
          Some mx \<Rightarrow> if kc_total c + us_total proposed > mx
                     then Some (TotalTokens (kc_total c) mx) else None
        | None \<Rightarrow> None)))"

section \<open>The accounting period\<close>

text \<open>\<open>now\<close> is the wall clock in whole seconds since the epoch (0 before it).\<close>

definition period_start_secs :: "u64 \<Rightarrow> u64 \<Rightarrow> u64" where
  "period_start_secs now period = (let secs = max period 1 in (now div secs) * secs)"

section \<open>Files\<close>

text \<open>
  A path is a directory and a final component; \<open>with_extension\<close> replaces what follows the last
  dot of the final component, unless that dot is its first character.
\<close>

record path =
  pa_dir :: string
  pa_file :: string

definition file_stem :: "string \<Rightarrow> string" where
  "file_stem name =
     (if CHR ''.'' \<in> set name
      then (let before = rev (tl (dropWhile (\<lambda>c. c \<noteq> CHR ''.'') (rev name)))
            in if before = [] then name else before)
      else name)"

definition with_extension :: "path \<Rightarrow> string \<Rightarrow> path" where
  "with_extension p ext = p\<lparr>pa_file := file_stem (pa_file p) @ ''.'' @ ext\<rparr>"

type_synonym fs = "path \<rightharpoonup> string"

text \<open>
  What the operating system does with a write: success, a failure to create the file (nothing
  changes), or a failure after the first bytes went out (the file was truncated first).
\<close>

datatype write_outcome = WriteOk | CreateFailed string | WriteFailed nat string

fun fs_write :: "write_outcome \<Rightarrow> path \<Rightarrow> string \<Rightarrow> fs \<Rightarrow> (string + unit) \<times> fs" where
  "fs_write WriteOk p data fs = (Inr (), fs(p \<mapsto> data))"
| "fs_write (CreateFailed e) p data fs = (Inl e, fs)"
| "fs_write (WriteFailed n e) p data fs = (Inl e, fs(p \<mapsto> take n data))"

definition fs_rename :: "string option \<Rightarrow> path \<Rightarrow> path \<Rightarrow> fs \<Rightarrow> (string + unit) \<times> fs" where
  "fs_rename failure src dst fs =
     (case failure of
        Some e \<Rightarrow> (Inl e, fs)
      | None \<Rightarrow> (Inr (), if src = dst then fs else (fs(dst := fs src))(src := None)))"

section \<open>The ledger\<close>

record ledger_snapshot =
  ls_period_start :: u64
  ls_entries :: "string \<rightharpoonup> usage_snapshot"

record ledger =
  lg_period_start :: u64
  lg_counters :: "string \<rightharpoonup> key_counters"
  lg_limits :: "string \<rightharpoonup> budget_limit"
  lg_snapshot_path :: "path option"

definition ledger_new ::
  "(string \<Rightarrow> ledger_snapshot option) \<Rightarrow> (string \<rightharpoonup> budget_limit) \<Rightarrow> u64 \<Rightarrow> path option \<Rightarrow> u64 \<Rightarrow> fs
     \<Rightarrow> ledger" where
  "ledger_new from_json limits period snapshot_path now fs =
     (let period_start = period_start_secs now period;
          counters =
            (case snapshot_path of None \<Rightarrow> Map.empty | Some path \<Rightarrow>
            (case fs path of None \<Rightarrow> Map.empty | Some data \<Rightarrow>
            (case from_json data of None \<Rightarrow> Map.empty | Some snap \<Rightarrow>
               if ls_period_start snap = period_start
               then (\<lambda>key. map_option (\<lambda>u. counters_restore u fresh_counters) (ls_entries snap key))
               else Map.empty)))
      in \<lparr>lg_period_start = period_start, lg_counters = counters, lg_limits = limits,
          lg_snapshot_path = snapshot_path\<rparr>)"

text \<open>\<open>counters_for\<close>: the read path, else insertion of fresh counters.\<close>

definition counters_for :: "string \<Rightarrow> ledger \<Rightarrow> key_counters \<times> ledger" where
  "counters_for key lg =
     (case lg_counters lg key of
        Some c \<Rightarrow> (c, lg)
      | None \<Rightarrow> (fresh_counters, lg\<lparr>lg_counters := (lg_counters lg)(key \<mapsto> fresh_counters)\<rparr>))"

definition store_counters :: "string \<Rightarrow> key_counters \<Rightarrow> ledger \<Rightarrow> ledger" where
  "store_counters key c lg = lg\<lparr>lg_counters := (lg_counters lg)(key \<mapsto> c)\<rparr>"

definition budget_limit_for :: "ledger \<Rightarrow> string \<Rightarrow> budget_limit" where
  "budget_limit_for lg key =
     (case lg_limits lg key of None \<Rightarrow> budget_unlimited | Some l \<Rightarrow> l)"

definition budget_check :: "string \<Rightarrow> usage \<Rightarrow> ledger \<Rightarrow> (budget_exceeded + unit) \<times> ledger" where
  "budget_check key proposed lg =
     (let limit = budget_limit_for lg key; (counters, lg') = counters_for key lg
      in (case would_exceed counters limit proposed of Some e \<Rightarrow> Inl e | None \<Rightarrow> Inr (), lg'))"

definition budget_record :: "string \<Rightarrow> usage \<Rightarrow> ledger \<Rightarrow> ledger" where
  "budget_record key u lg =
     (let (counters, lg') = counters_for key lg in store_counters key (add_usage u counters) lg')"

definition usage_for :: "ledger \<Rightarrow> string \<Rightarrow> (u64 \<times> u64 \<times> u64) option" where
  "usage_for lg key =
     map_option (\<lambda>c. (kc_prompt c, kc_completion c, kc_total c)) (lg_counters lg key)"

definition ledger_to_snapshot :: "ledger \<Rightarrow> ledger_snapshot" where
  "ledger_to_snapshot lg = \<lparr>ls_period_start = lg_period_start lg,
     ls_entries = (\<lambda>k. map_option counters_snapshot (lg_counters lg k))\<rparr>"

text \<open>\<open>flush\<close>: print, write the temporary file, rename it over the snapshot.\<close>

definition budget_flush ::
  "(ledger_snapshot \<Rightarrow> string + string) \<Rightarrow> write_outcome \<Rightarrow> string option \<Rightarrow> ledger \<Rightarrow> fs
     \<Rightarrow> (string + unit) \<times> fs" where
  "budget_flush to_json wr rn lg fs =
     (case lg_snapshot_path lg of
        None \<Rightarrow> (Inr (), fs)
      | Some path \<Rightarrow>
         (case to_json (ledger_to_snapshot lg) of
            Inl e \<Rightarrow> (Inl e, fs)
          | Inr json \<Rightarrow>
             (let tmp_path = with_extension path ''tmp''; (res, fs1) = fs_write wr tmp_path json fs
              in case res of
                   Inl e \<Rightarrow> (Inl e, fs1)
                 | Inr _ \<Rightarrow> fs_rename rn tmp_path path fs1)))"

section \<open>The ledger as a lazily filled table\<close>

lemma counters_for_fst: "fst (counters_for k lg) = (case lg_counters lg k of None \<Rightarrow> fresh_counters | Some c \<Rightarrow> c)"
  by (simp add: counters_for_def split: option.splits)

lemma counters_for_lookup [table_simps]:
  "lg_counters (snd (counters_for k lg)) k' =
     (if k' = k then Some (fst (counters_for k lg)) else lg_counters lg k')"
  by (auto simp: counters_for_def split: option.splits)

lemma counters_for_frame [simp]:
  "lg_period_start (snd (counters_for k lg)) = lg_period_start lg"
  "lg_limits (snd (counters_for k lg)) = lg_limits lg"
  "lg_snapshot_path (snd (counters_for k lg)) = lg_snapshot_path lg"
  by (simp_all add: counters_for_def split: option.splits)

lemma budget_record_frame [simp]:
  "lg_period_start (budget_record k u lg) = lg_period_start lg"
  "lg_limits (budget_record k u lg) = lg_limits lg"
  "lg_snapshot_path (budget_record k u lg) = lg_snapshot_path lg"
  by (simp_all add: budget_record_def store_counters_def split_beta)

lemma budget_record_store:
  "budget_record k u lg = store_counters k (add_usage u (fst (counters_for k lg))) (snd (counters_for k lg))"
  by (simp add: budget_record_def split_beta)

interpretation ledger_table: lazy_table lg_counters counters_for store_counters fresh_counters
  by unfold_locales (simp_all add: counters_for_fst counters_for_lookup store_counters_def)

interpretation prompt_table: accumulating_table lg_counters counters_for store_counters fresh_counters
  budget_record add_usage kc_prompt us_prompt
  by unfold_locales (simp_all add: budget_record_store add_usage_def fresh_counters_def)

interpretation completion_table: accumulating_table lg_counters counters_for store_counters fresh_counters
  budget_record add_usage kc_completion us_completion
  by unfold_locales (simp_all add: budget_record_store add_usage_def fresh_counters_def)

interpretation total_table: accumulating_table lg_counters counters_for store_counters fresh_counters
  budget_record add_usage kc_total us_total
  by unfold_locales (simp_all add: budget_record_store add_usage_def fresh_counters_def)

text \<open>The three totals of a key, zero before its first request.\<close>

definition used_tokens :: "ledger \<Rightarrow> string \<Rightarrow> u64 \<times> u64 \<times> u64" where
  "used_tokens lg key = (case usage_for lg key of None \<Rightarrow> (0, 0, 0) | Some t \<Rightarrow> t)"

lemma used_tokens_alt:
  "used_tokens lg key =
    (case lg_counters lg key of None \<Rightarrow> 0 | Some c \<Rightarrow> kc_prompt c,
     case lg_counters lg key of None \<Rightarrow> 0 | Some c \<Rightarrow> kc_completion c,
     case lg_counters lg key of None \<Rightarrow> 0 | Some c \<Rightarrow> kc_total c)"
  by (simp add: used_tokens_def usage_for_def split: option.splits)

text \<open>What a batch of records adds up to under a key, in one dimension.\<close>

definition charged :: "(usage \<Rightarrow> u64) \<Rightarrow> string \<Rightarrow> (string \<times> usage) list \<Rightarrow> nat" where
  "charged dim key us = (\<Sum>(k, u) \<leftarrow> filter (\<lambda>(k, u). k = key) us. unat (dim u))"

definition budget_records :: "(string \<times> usage) list \<Rightarrow> ledger \<Rightarrow> ledger" where
  "budget_records us lg = foldl (\<lambda>lg (k, u). budget_record k u lg) lg us"

lemma of_nat_charged:
  "sum_list (map (\<lambda>(k, u). dim u) (filter (\<lambda>(k, u). k = key) us)) = of_nat (charged dim key us)"
  by (induction us) (auto simp: charged_def)

lemma charged_perm: "mset us = mset us' \<Longrightarrow> charged dim key us = charged dim key us'"
  unfolding charged_def by (metis (no_types, lifting) mset_filter mset_map sum_mset_sum_list)

lemma used_after_records:
  "used_tokens (budget_records us lg) key =
     (case used_tokens lg key of (p, c, t) \<Rightarrow>
        (p + of_nat (charged us_prompt key us), c + of_nat (charged us_completion key us),
         t + of_nat (charged us_total key us)))"
  by (simp add: used_tokens_alt budget_records_def prompt_table.total_records
      completion_table.total_records total_table.total_records of_nat_charged)

text \<open>After any sequence of \<open>record\<close>s, for any mixture of keys, each counter of every key holds
  its old value plus the sum of exactly the usages recorded under that key (modulo \<open>2 ^ 64\<close>); no
  other key's usage leaks into it.\<close>
theorem ledger_totals_exact:
  "used_tokens (budget_records us lg) key =
     (case used_tokens lg key of (p, c, t) \<Rightarrow>
        (p + of_nat (charged us_prompt key us), c + of_nat (charged us_completion key us),
         t + of_nat (charged us_total key us)))"
  by (simp add: used_tokens_alt budget_records_def prompt_table.total_records
      completion_table.total_records total_table.total_records of_nat_charged)

section \<open>The check\<close>

text \<open>
  What the check promises, over the natural numbers: the first configured dimension, in the order
  prompt, completion, total, that the used tokens plus the proposed ones would pass.
\<close>

definition budget_dimensions ::
  "budget_limit \<Rightarrow> u64 \<times> u64 \<times> u64 \<Rightarrow> usage \<Rightarrow> (u64 option \<times> u64 \<times> u64 \<times> (u64 \<Rightarrow> u64 \<Rightarrow> budget_exceeded)) list" where
  "budget_dimensions l used u = (case used of (p, c, t) \<Rightarrow>
     [(bl_max_prompt l, p, us_prompt u, PromptTokens),
      (bl_max_completion l, c, us_completion u, CompletionTokens),
      (bl_max_total l, t, us_total u, TotalTokens)])"

definition over_limit :: "u64 option \<times> u64 \<times> u64 \<times> 'b \<Rightarrow> bool" where
  "over_limit d = (case d of (mx, used, extra, _) \<Rightarrow>
     (case mx of None \<Rightarrow> False | Some m \<Rightarrow> unat m < unat used + unat extra))"

definition no_wrap :: "u64 option \<times> u64 \<times> u64 \<times> 'b \<Rightarrow> bool" where
  "no_wrap d = (case d of (mx, used, extra, _) \<Rightarrow>
     mx = None \<or> unat used + unat extra < 2 ^ 64)"

definition budget_verdict :: "budget_limit \<Rightarrow> u64 \<times> u64 \<times> u64 \<Rightarrow> usage \<Rightarrow> budget_exceeded option" where
  "budget_verdict l used u =
     map_option (\<lambda>(mx, used, extra, err). err used (the mx)) (find over_limit (budget_dimensions l used u))"

lemma word_over_limit:
  fixes used extra m :: u64
  assumes "unat used + unat extra < 2 ^ 64"
  shows "used + extra > m \<longleftrightarrow> unat m < unat used + unat extra"
  using assms by (simp add: word_less_nat_alt unat_add_lem[THEN iffD1])

lemma would_exceed_verdict:
  assumes "list_all no_wrap (budget_dimensions l (kc_prompt c, kc_completion c, kc_total c) u)"
  shows "would_exceed c l u = budget_verdict l (kc_prompt c, kc_completion c, kc_total c) u"
  using assms
  by (cases "bl_max_prompt l"; cases "bl_max_completion l"; cases "bl_max_total l")
    (simp_all add: would_exceed_def budget_verdict_def budget_dimensions_def no_wrap_def over_limit_def
      word_over_limit)

lemma budget_check_result:
  assumes "list_all no_wrap (budget_dimensions (budget_limit_for lg key) (used_tokens lg key) u)"
  shows "fst (budget_check key u lg) =
     (case budget_verdict (budget_limit_for lg key) (used_tokens lg key) u of
        Some e \<Rightarrow> Inl e | None \<Rightarrow> Inr ())"
proof -
  let ?c = "fst (counters_for key lg)"
  have used: "used_tokens lg key = (kc_prompt ?c, kc_completion ?c, kc_total ?c)"
    by (simp add: used_tokens_alt counters_for_fst fresh_counters_def split: option.splits)
  show ?thesis
    using assms unfolding used
    by (simp add: budget_check_def split_beta would_exceed_verdict)
qed

lemma budget_check_state: "snd (budget_check key u lg) = snd (counters_for key lg)"
  by (simp add: budget_check_def split_beta)

lemma counters_for_used [simp]: "used_tokens (snd (counters_for key lg)) k = used_tokens lg k"
  by (simp add: used_tokens_alt counters_for_lookup counters_for_fst fresh_counters_def
      split: option.splits)

text \<open>C11: when no sum wraps around, \<open>check\<close> admits a request exactly when none of the three
  configured dimensions would be passed by the tokens used so far plus the proposed ones, reports
  the first one that would be otherwise, and charges nothing.\<close>
theorem budget_check_exact:
  assumes "list_all no_wrap (budget_dimensions (budget_limit_for lg key) (used_tokens lg key) u)"
  shows "fst (budget_check key u lg) =
      (case budget_verdict (budget_limit_for lg key) (used_tokens lg key) u of
         Some e \<Rightarrow> Inl e | None \<Rightarrow> Inr ())
    \<and> used_tokens (snd (budget_check key u lg)) k = used_tokens lg k"
  using budget_check_result[OF assms] by (simp add: budget_check_state)

definition sample_ledger :: ledger where
  "sample_ledger = \<lparr>lg_period_start = 3600,
     lg_counters = [''alice'' \<mapsto> \<lparr>kc_prompt = 40, kc_completion = 50, kc_total = 90\<rparr>],
     lg_limits = [''alice'' \<mapsto> \<lparr>bl_max_prompt = None, bl_max_completion = Some 60, bl_max_total = Some 100\<rparr>],
     lg_snapshot_path = Some \<lparr>pa_dir = ''/var'', pa_file = ''budget.json''\<rparr>\<rparr>"

lemma budget_check_exact_witness:
  "fst (budget_check ''alice'' \<lparr>us_prompt = 5, us_completion = 20, us_total = 25\<rparr> sample_ledger) =
     Inl (CompletionTokens 50 60)"
proof -
  let ?u = "\<lparr>us_prompt = 5, us_completion = 20, us_total = 25\<rparr>"
  have "list_all no_wrap (budget_dimensions (budget_limit_for sample_ledger ''alice'')
          (used_tokens sample_ledger ''alice'') ?u)"
    by (simp add: budget_dimensions_def no_wrap_def budget_limit_for_def used_tokens_def usage_for_def
        sample_ledger_def)
  from budget_check_exact[OF this, where k = "''alice''"] show ?thesis
    by (simp add: budget_verdict_def budget_dimensions_def over_limit_def budget_limit_for_def
        used_tokens_def usage_for_def sample_ledger_def)
qed
text \<open>The sum of the check wraps around: when used and proposed tokens together pass
  \<open>2 ^ 64\<close> and the remainder is within the limit, the total dimension is admitted although the
  true sum exceeds every 64-bit limit.\<close>
theorem wrapped_check_admits:
  assumes "budget_limit_for lg key = \<lparr>bl_max_prompt = None, bl_max_completion = None, bl_max_total = Some mx\<rparr>"
    and "used_tokens lg key = (p, c, t)"
    and "unat t + unat (us_total u) = 2 ^ 64 + r" and "r \<le> unat mx"
  shows "fst (budget_check key u lg) = Inr ()
    \<and> budget_verdict (budget_limit_for lg key) (used_tokens lg key) u = Some (TotalTokens t mx)"
proof -
  have c: "kc_total (fst (counters_for key lg)) = t"
    using assms(2) by (auto simp: used_tokens_alt counters_for_fst fresh_counters_def split: option.splits)
  have r: "r < 2 ^ 64" using assms(4) unsigned_less[of mx, where ?'a = nat] by simp
  have "unat (t + us_total u) = (2 ^ 64 + r) mod 2 ^ 64"
    using assms(3) by (simp add: unat_word_ariths)
  also have "\<dots> = r" using r by simp
  finally have "\<not> mx < t + us_total u" using assms(4) by (simp add: word_less_nat_alt)
  moreover have "unat mx < unat t + unat (us_total u)"
    using assms(3) unsigned_less[of mx, where ?'a = nat] by simp
  ultimately show ?thesis
    by (simp add: budget_check_def split_beta would_exceed_def assms(1,2) c budget_verdict_def
        budget_dimensions_def over_limit_def)
qed

lemma wrapped_check_admits_witness:
  "fst (budget_check ''k'' \<lparr>us_prompt = 0, us_completion = 0, us_total = 2 ^ 63\<rparr>
     \<lparr>lg_period_start = 0, lg_counters = [''k'' \<mapsto> \<lparr>kc_prompt = 0, kc_completion = 0, kc_total = 2 ^ 63\<rparr>],
      lg_limits = [''k'' \<mapsto> \<lparr>bl_max_prompt = None, bl_max_completion = None, bl_max_total = Some 10\<rparr>],
      lg_snapshot_path = None\<rparr>) = Inr ()"
  by (rule wrapped_check_admits[where mx = 10 and r = 0 and p = 0 and c = 0 and t = "2 ^ 63", THEN conjunct1])
    (simp_all add: budget_limit_for_def used_tokens_def usage_for_def)

section \<open>Checks and records of one key\<close>

text \<open>
  The documented protocol of a request: \<open>check\<close> the expected usage, and \<open>record\<close> the actual one
  when the request was admitted.  Served one after the other, requests that use no more than they
  announced keep the total within its limit; \<open>n\<close> requests that are all checked before any of
  them is recorded are all admitted, and pass the limit by up to the usage of \<open>n - 1\<close> of them.
\<close>

definition serve_in_turn :: "string \<Rightarrow> usage \<times> usage \<Rightarrow> ledger \<Rightarrow> ledger" where
  "serve_in_turn key = (\<lambda>(proposed, actual) lg.
     (case budget_check key proposed lg of
        (Inl e, lg') \<Rightarrow> lg'
      | (Inr _, lg') \<Rightarrow> budget_record key actual lg'))"

definition total_used :: "ledger \<Rightarrow> string \<Rightarrow> u64" where
  "total_used lg key = snd (snd (used_tokens lg key))"

lemma total_used_record:
  "total_used (budget_record key u lg) k = total_used lg k + (if k = key then us_total u else 0)"
  using total_table.total_record[of key u lg k] by (simp add: total_used_def used_tokens_alt)

lemma total_used_fetch [simp]: "total_used (snd (counters_for key lg)) k = total_used lg k"
  by (simp add: total_used_def)

lemma budget_limit_for_frame [simp]:
  "budget_limit_for (snd (counters_for key lg)) = budget_limit_for lg"
  "budget_limit_for (budget_record key u lg) = budget_limit_for lg"
  by (simp_all add: budget_limit_for_def fun_eq_iff)

lemma admitted_total:
  assumes "fst (budget_check key u lg) = Inr ()" and "bl_max_total (budget_limit_for lg key) = Some mx"
  shows "total_used lg key + us_total u \<le> mx"
proof -
  have "kc_total (fst (counters_for key lg)) = total_used lg key"
    by (simp add: total_used_def used_tokens_alt counters_for_fst fresh_counters_def split: option.splits)
  then show ?thesis using assms
    by (auto simp: budget_check_def Let_def split_beta would_exceed_def split: option.splits if_splits)
qed

lemma serve_in_turn_limit [simp]: "budget_limit_for (serve_in_turn key r lg) = budget_limit_for lg"
  using budget_check_state[of key "fst r" lg]
  by (auto simp: serve_in_turn_def split: sum.splits prod.splits)

text \<open>C29: requests of a key that are served one after the other, each using no more tokens than it
  announced and none large enough to wrap the counter, never take its total over its limit.\<close>
theorem serial_budget_respected:
  assumes "bl_max_total (budget_limit_for lg key) = Some mx"
    and "total_used lg key \<le> mx"
    and "list_all (\<lambda>(proposed, actual). us_total actual \<le> us_total proposed
           \<and> unat mx + unat (us_total proposed) < 2 ^ 64) rs"
  shows "total_used (fold (serve_in_turn key) rs lg) key \<le> mx"
  using assms
proof (induction rs arbitrary: lg)
  case (Cons r rs)
  obtain p a where r: "r = (p, a)" by (cases r)
  have "total_used (serve_in_turn key r lg) key \<le> mx"
  proof (cases "fst (budget_check key p lg)")
    case (Inl e)
    then show ?thesis using Cons.prems(2) budget_check_state[of key p lg]
      by (cases "budget_check key p lg") (simp add: r serve_in_turn_def)
  next
    case (Inr x)
    then have adm: "total_used lg key + us_total p \<le> mx"
      using admitted_total Cons.prems(1) by simp
    have "unat (total_used lg key) + unat (us_total p) < 2 ^ 64"
      using Cons.prems(2,3) by (simp add: r word_le_nat_alt)
    with adm Cons.prems(3) have "total_used lg key + us_total a \<le> mx"
      by (simp add: r word_le_nat_alt unat_word_ariths)
    then show ?thesis using Inr budget_check_state[of key p lg]
      by (cases "budget_check key p lg") (simp add: r serve_in_turn_def total_used_record)
  qed
  with Cons.IH[of "serve_in_turn key r lg"] Cons.prems show ?case by simp
qed simp

lemma serial_budget_respected_witness:
  "total_used (fold (serve_in_turn ''alice'')
     [(\<lparr>us_prompt = 1, us_completion = 3, us_total = 8\<rparr>, \<lparr>us_prompt = 1, us_completion = 3, us_total = 4\<rparr>),
      (\<lparr>us_prompt = 1, us_completion = 3, us_total = 8\<rparr>, \<lparr>us_prompt = 1, us_completion = 3, us_total = 4\<rparr>)]
     sample_ledger) ''alice'' \<le> 100"
  by (rule serial_budget_respected)
    (simp_all add: sample_ledger_def budget_limit_for_def total_used_def used_tokens_def usage_for_def)

definition checked :: "string \<Rightarrow> usage \<Rightarrow> ledger \<Rightarrow> ledger" where
  "checked key u lg = snd (budget_check key u lg)"

lemma checked_used [simp]: "used_tokens ((checked key u ^^ n) lg) k = used_tokens lg k"
  by (induction n) (simp_all add: checked_def budget_check_state)

lemma checked_limit [simp]: "budget_limit_for ((checked key u ^^ n) lg) = budget_limit_for lg"
  by (induction n) (simp_all add: checked_def budget_check_state)

lemma used_tokens_records_same:
  "total_used (budget_records (replicate n (key, u)) lg) key = total_used lg key + of_nat n * us_total u"
  by (induction n arbitrary: lg) (simp_all add: budget_records_def total_used_record algebra_simps)

text \<open>Requests of a key that are all checked before any of them is recorded are all admitted as
  soon as the first one is; the \<open>n\<close> records then charge \<open>n\<close> times its tokens, so the total passes
  the limit by as much as \<open>n - 1\<close> requests, not by one.\<close>
theorem concurrent_checks_overshoot:
  assumes "fst (budget_check key u lg) = Inr ()"
    and "list_all no_wrap (budget_dimensions (budget_limit_for lg key) (used_tokens lg key) u)"
  shows "list_all (\<lambda>i. fst (budget_check key u ((checked key u ^^ i) lg)) = Inr ()) [0..<n]
    \<and> total_used (budget_records (replicate n (key, u)) ((checked key u ^^ n) lg)) key
        = total_used lg key + of_nat n * us_total u"
proof -
  have "fst (budget_check key u ((checked key u ^^ i) lg)) = Inr ()" for i
    using budget_check_result[OF assms(2)] budget_check_result[of "(checked key u ^^ i) lg" key u] assms
    by simp
  then show ?thesis
    by (simp add: list_all_iff used_tokens_records_same) (simp add: total_used_def)
qed

lemma concurrent_checks_overshoot_witness:
  "total_used (budget_records (replicate 3 (''alice'', \<lparr>us_prompt = 0, us_completion = 0, us_total = 10\<rparr>))
     ((checked ''alice'' \<lparr>us_prompt = 0, us_completion = 0, us_total = 10\<rparr> ^^ 3) sample_ledger)) ''alice'' = 120"
proof -
  have "total_used sample_ledger ''alice'' = 90"
    by (simp add: total_used_def used_tokens_def usage_for_def sample_ledger_def)
  then show ?thesis
    by (subst concurrent_checks_overshoot[THEN conjunct2])
      (simp_all add: budget_check_def counters_for_def would_exceed_def budget_dimensions_def no_wrap_def
        budget_limit_for_def used_tokens_def usage_for_def sample_ledger_def)
qed

section \<open>Periods and persistence\<close>

lemma period_start_nat:
  "unat (period_start_secs now period) = unat now - unat now mod max 1 (unat period)"
proof -
  let ?s = "max period 1"
  have s: "unat ?s = max 1 (unat period)"
    by (auto simp: max_def word_le_nat_alt)
  have le: "unat now div unat ?s * unat ?s \<le> unat now" by simp
  then have "unat now div unat ?s * unat ?s < 2 ^ LENGTH(64)"
    using unsigned_less[of now, where ?'a = nat] by (rule le_less_trans)
  then have "unat (now div ?s * ?s) = unat now div unat ?s * unat ?s"
    using unat_mult_lem[of "now div ?s" ?s] by (simp add: unat_div)
  then show ?thesis
    unfolding period_start_secs_def Let_def by (simp add: s minus_mod_eq_div_mult)
qed

text \<open>The period start is the last multiple of the period (at least one second) that is not in
  the future, so the clock is inside \<open>[start, start + period)\<close>.\<close>
theorem period_start_exact:
  "max 1 (unat period) dvd unat (period_start_secs now period)
   \<and> unat (period_start_secs now period) \<le> unat now
   \<and> unat now < unat (period_start_secs now period) + max 1 (unat period)"
  using dividend_less_div_times[of "max 1 (unat period)" "unat now"]
  by (simp only: period_start_nat minus_mod_eq_div_mult) (simp add: add.commute)

lemma same_period:
  assumes "unat (period_start_secs now period) \<le> unat later"
    and "unat later < unat (period_start_secs now period) + max 1 (unat period)"
  shows "period_start_secs later period = period_start_secs now period"
proof -
  let ?m = "max 1 (unat period)" and ?s = "unat (period_start_secs now period)"
  have s: "?s = unat now div ?m * ?m" by (simp add: period_start_nat minus_mod_eq_div_mult)
  then have "unat later div ?m = unat now div ?m"
    using assms by (metis add.commute div_nat_eqI mult.commute mult_Suc)
  then have "unat (period_start_secs later period) = ?s"
    by (simp add: s period_start_nat minus_mod_eq_div_mult)
  then show ?thesis by (simp only: word_unat_eq_iff)
qed


definition in_period :: "u64 \<Rightarrow> u64 \<Rightarrow> u64 \<Rightarrow> bool" where
  "in_period start period now \<longleftrightarrow>
     unat start \<le> unat now \<and> unat now < unat start + max 1 (unat period)"

lemma in_own_period: "in_period (period_start_secs now period) period now"
  using dividend_less_div_times[of "max 1 (unat period)" "unat now"]
  unfolding in_period_def
  by (simp only: period_start_nat minus_mod_eq_div_mult) (simp add: add.commute)

lemma in_period_iff:
  "in_period (period_start_secs now period) period later
     \<longleftrightarrow> period_start_secs later period = period_start_secs now period"
  using in_own_period[of later period] same_period[of now period later] by (auto simp: in_period_def)

lemma restore_snapshot: "counters_restore (counters_snapshot c) fresh_counters = (c :: key_counters)"
  by (simp add: counters_restore_def counters_snapshot_def)

lemma flush_ok_file:
  assumes "lg_snapshot_path lg = Some path" and "to_json (ledger_to_snapshot lg) = Inr json"
  shows "snd (budget_flush to_json WriteOk None lg fs) path = Some json"
  using assms by (simp add: budget_flush_def Let_def fs_rename_def)

text \<open>C26: after a successful \<open>flush\<close>, a ledger created from the file by a process that starts at
  \<open>later\<close> holds every key's totals when \<open>later\<close> lies in the same accounting period, and starts
  every key from zero otherwise; the JSON library is only assumed to read back what it printed.\<close>
theorem restart_keeps_usage:
  assumes "lg_snapshot_path lg = Some path"
    and "lg_period_start lg = period_start_secs now period"
    and "to_json (ledger_to_snapshot lg) = Inr json"
    and "from_json json = Some (ledger_to_snapshot lg)"
  shows "used_tokens (ledger_new from_json limits period (Some path) later
           (snd (budget_flush to_json WriteOk None lg fs))) key =
     (if in_period (lg_period_start lg) period later then used_tokens lg key else (0, 0, 0))"
proof -
  let ?new = "ledger_new from_json limits period (Some path) later (snd (budget_flush to_json WriteOk None lg fs))"
  have "lg_counters ?new = (if in_period (lg_period_start lg) period later then lg_counters lg else Map.empty)"
    using assms flush_ok_file[of lg path to_json json fs]
    by (auto simp: ledger_new_def Let_def in_period_iff ledger_to_snapshot_def restore_snapshot
        option.map_comp o_def option.map_ident)
  then show ?thesis by (simp add: used_tokens_alt)
qed

lemma restart_keeps_usage_witness:
  "used_tokens (ledger_new (\<lambda>_. Some (ledger_to_snapshot sample_ledger)) Map.empty 3600
      (Some \<lparr>pa_dir = ''/var'', pa_file = ''budget.json''\<rparr>) 7000
      (snd (budget_flush (\<lambda>_. Inr ''{}'') WriteOk None sample_ledger Map.empty))) ''alice'' = (40, 50, 90)"
  by (subst restart_keeps_usage[where now = 7000])
    (simp_all add: sample_ledger_def period_start_secs_def in_period_def used_tokens_def usage_for_def
      ledger_to_snapshot_def Let_def max_def word_le_nat_alt)

text \<open>C27: unless the snapshot path itself ends in \<open>.tmp\<close>, whatever happens during \<open>flush\<close> (the JSON
  printer fails, the write fails at any byte, the rename fails) the snapshot file holds its previous
  content or the complete new snapshot, a success means the latter, and no file but the snapshot
  and its temporary sibling changes.\<close>
theorem flush_atomic:
  assumes "lg_snapshot_path lg = Some path" and "with_extension path ''tmp'' \<noteq> path"
  shows "case budget_flush to_json wr rn lg fs of (res, fs') \<Rightarrow>
      (fs' path = fs path \<or> (\<exists>json. to_json (ledger_to_snapshot lg) = Inr json \<and> fs' path = Some json))
    \<and> (res = Inr () \<longrightarrow> map_option Inr (fs' path) = Some (to_json (ledger_to_snapshot lg)))
    \<and> (\<forall>q. q \<noteq> path \<longrightarrow> q \<noteq> with_extension path ''tmp'' \<longrightarrow> fs' q = fs q)"
proof (cases "to_json (ledger_to_snapshot lg)")
  case (Inl e)
  then show ?thesis using assms by (simp add: budget_flush_def)
next
  case (Inr json)
  show ?thesis using assms Inr
    by (cases wr; cases rn) (auto simp: budget_flush_def Let_def fs_rename_def)
qed

lemma flush_atomic_witness:
  "snd (budget_flush (\<lambda>_. Inr ''{new}'') (WriteFailed 2 ''disk full'') None sample_ledger
     [\<lparr>pa_dir = ''/var'', pa_file = ''budget.json''\<rparr> \<mapsto> ''{old}''])
     \<lparr>pa_dir = ''/var'', pa_file = ''budget.json''\<rparr> = Some ''{old}''"
proof -
  let ?p = "\<lparr>pa_dir = ''/var'', pa_file = ''budget.json''\<rparr>"
  have path: "lg_snapshot_path sample_ledger = Some ?p" by (simp add: sample_ledger_def)
  have tmp: "with_extension ?p ''tmp'' \<noteq> ?p" by (simp add: with_extension_def file_stem_def Let_def)
  show ?thesis
    using flush_atomic[OF path tmp, where to_json = "\<lambda>_. Inr ''{new}''" and wr = "WriteFailed 2 ''disk full''"
        and rn = None and fs = "[?p \<mapsto> ''{old}'']"]
    by (simp add: budget_flush_def path split_beta Let_def tmp split: if_splits)
qed

text \<open>When the configured snapshot path already has the extension \<open>.tmp\<close> the temporary file is
  the snapshot itself, and a write that fails after \<open>n\<close> bytes leaves a truncated snapshot.\<close>
theorem flush_torn_on_tmp_path:
  "budget_flush (\<lambda>_. Inr json) (WriteFailed n e) rn
     (lg\<lparr>lg_snapshot_path := Some \<lparr>pa_dir = d, pa_file = ''budget.tmp''\<rparr>\<rparr>) fs =
   (Inl e, fs(\<lparr>pa_dir = d, pa_file = ''budget.tmp''\<rparr> \<mapsto> take n json))"
  by (simp add: budget_flush_def with_extension_def file_stem_def Let_def)

end
