(* ===== verification/Rate_Limits.thy ===== *)
theory Rate_Limits
  imports Prelude
begin

text \<open>
  \<open>src/limits.rs\<close>: requests per minute through the \<open>governor\<close> crate, and the token-per-minute
  window counters.  The governor's code is not part of the repository: a limiter is a value of
  type \<open>'g\<close>, built from its quota by \<open>keyed\<close> and asked by \<open>check_key\<close>, which sees the clock
  and returns the verdict and the limiter's next state.  The wall clock of the token counters is
  an argument \<open>now\<close> in whole seconds.
\<close>

section \<open>Limits and errors\<close>

record rate_limit =
  rl_max_rpm :: "u32 option"
  rl_max_tpm :: "u64 option"

definition rate_unlimited :: rate_limit where
  "rate_unlimited = \<lparr>rl_max_rpm = None, rl_max_tpm = None\<rparr>"

datatype limit_exceeded = Rpm u32 | Tpm u64 u64

fun show_limit_exceeded :: "limit_exceeded \<Rightarrow> string" where
  "show_limit_exceeded (Rpm limit) = ''rate limit exceeded ('' @ show_nat (unat limit) @ '' rpm)''"
| "show_limit_exceeded (Tpm used limit) =
     ''token rate limit exceeded ('' @ show_nat (unat used) @ ''/'' @ show_nat (unat limit) @ '' tpm)''"

section \<open>The token-per-minute window\<close>

record tpm_counter =
  tc_window_start :: u64
  tc_tokens :: u64

definition fresh_tpm :: tpm_counter where
  "fresh_tpm = \<lparr>tc_window_start = 0, tc_tokens = 0\<rparr>"

definition saturating_sub :: "u64 \<Rightarrow> u64 \<Rightarrow> u64" where
  "saturating_sub a b = (if a < b then 0 else a - b)"

definition tpm_add :: "u64 \<Rightarrow> u64 \<Rightarrow> tpm_counter \<Rightarrow> u64 \<times> tpm_counter" where
  "tpm_add tokens now_secs c =
     (let ws = tc_window_start c
      in if saturating_sub now_secs ws \<ge> 60
         then (tokens, c\<lparr>tc_window_start := now_secs, tc_tokens := tokens\<rparr>)
         else (tc_tokens c + tokens, c\<lparr>tc_tokens := tc_tokens c + tokens\<rparr>))"

definition tpm_current :: "u64 \<Rightarrow> tpm_counter \<Rightarrow> u64" where
  "tpm_current now_secs c =
     (let ws = tc_window_start c
      in if saturating_sub now_secs ws \<ge> 60 then 0 else tc_tokens c)"

section \<open>The store\<close>

record 'g rate_store =
  rs_limits :: "string \<rightharpoonup> rate_limit"
  rs_rpm_limiters :: "string \<rightharpoonup> 'g"
  rs_tpm_counters :: "string \<rightharpoonup> tpm_counter"

definition rate_store_new :: "(u32 \<Rightarrow> 'g) \<Rightarrow> (string \<rightharpoonup> rate_limit) \<Rightarrow> 'g rate_store" where
  "rate_store_new keyed limits =
     \<lparr>rs_limits = limits,
      rs_rpm_limiters = (\<lambda>name.
        (case limits name of None \<Rightarrow> None | Some limit \<Rightarrow>
        (case rl_max_rpm limit of None \<Rightarrow> None | Some n \<Rightarrow>
           if n = 0 then None else Some (keyed n)))),
      rs_tpm_counters = Map.empty\<rparr>"

definition rate_limit_for :: "'g rate_store \<Rightarrow> string \<Rightarrow> rate_limit" where
  "rate_limit_for s key = (case rs_limits s key of None \<Rightarrow> rate_unlimited | Some l \<Rightarrow> l)"

definition tpm_counter_for :: "string \<Rightarrow> 'g rate_store \<Rightarrow> tpm_counter \<times> 'g rate_store" where
  "tpm_counter_for key s =
     (case rs_tpm_counters s key of
        Some c \<Rightarrow> (c, s)
      | None \<Rightarrow> (fresh_tpm, s\<lparr>rs_tpm_counters := (rs_tpm_counters s)(key \<mapsto> fresh_tpm)\<rparr>))"

definition store_tpm :: "string \<Rightarrow> tpm_counter \<Rightarrow> 'g rate_store \<Rightarrow> 'g rate_store" where
  "store_tpm key c s = s\<lparr>rs_tpm_counters := (rs_tpm_counters s)(key \<mapsto> c)\<rparr>"

definition check_rpm ::
  "('t \<Rightarrow> string \<Rightarrow> 'g \<Rightarrow> bool \<times> 'g) \<Rightarrow> 't \<Rightarrow> string \<Rightarrow> 'g rate_store
     \<Rightarrow> (limit_exceeded + unit) \<times> 'g rate_store" where
  "check_rpm check_key now key s =
     (case rl_max_rpm (rate_limit_for s key) of
        None \<Rightarrow> (Inr (), s)
      | Some rpm \<Rightarrow>
         (case rs_rpm_limiters s key of
            None \<Rightarrow> (Inr (), s)
          | Some rl \<Rightarrow>
             (let (ok, rl') = check_key now key rl;
                  s' = s\<lparr>rs_rpm_limiters := (rs_rpm_limiters s)(key \<mapsto> rl')\<rparr>
              in (if ok then Inr () else Inl (Rpm rpm), s'))))"

definition record_tpm ::
  "u64 \<Rightarrow> string \<Rightarrow> u64 \<Rightarrow> 'g rate_store \<Rightarrow> (limit_exceeded + u64) \<times> 'g rate_store" where
  "record_tpm now key tokens s =
     (case rl_max_tpm (rate_limit_for s key) of
        None \<Rightarrow>
          (let (c, s1) = tpm_counter_for key s; (n, c') = tpm_add tokens now c
           in (Inr n, store_tpm key c' s1))
      | Some max_tpm \<Rightarrow>
          (let (c, s1) = tpm_counter_for key s; (new_total, c') = tpm_add tokens now c;
               s2 = store_tpm key c' s1
           in if new_total > max_tpm then (Inl (Tpm new_total max_tpm), s2) else (Inr new_total, s2)))"

definition current_tpm :: "u64 \<Rightarrow> string \<Rightarrow> 'g rate_store \<Rightarrow> u64 \<times> 'g rate_store" where
  "current_tpm now key s = (let (c, s') = tpm_counter_for key s in (tpm_current now c, s'))"

text \<open>\<open>u64::div_ceil\<close>.\<close>

definition div_ceil :: "u64 \<Rightarrow> u64 \<Rightarrow> u64" where
  "div_ceil a b = (let d = a div b; r = a mod b in if r > 0 \<and> b > 0 then d + 1 else d)"

definition retry_after_secs :: "u32 \<Rightarrow> u64" where
  "retry_after_secs rpm = (if rpm = 0 then 60 else div_ceil 60 (ucast rpm))"

section \<open>The token counters as a lazily filled table\<close>

lemma tpm_counter_for_lookup [table_simps]:
  "fst (tpm_counter_for k s) = (case rs_tpm_counters s k of None \<Rightarrow> fresh_tpm | Some c \<Rightarrow> c)"
  "rs_tpm_counters (snd (tpm_counter_for k s)) k' =
     (if k' = k then Some (fst (tpm_counter_for k s)) else rs_tpm_counters s k')"
  by (auto simp: tpm_counter_for_def split: option.splits)

interpretation tpm_table: lazy_table rs_tpm_counters tpm_counter_for store_tpm fresh_tpm
  by unfold_locales (simp_all add: table_simps store_tpm_def)

lemma tpm_counter_for_frame [simp]:
  "rs_limits (snd (tpm_counter_for k s)) = rs_limits s"
  "rs_rpm_limiters (snd (tpm_counter_for k s)) = rs_rpm_limiters s"
  "rs_limits (store_tpm k c s) = rs_limits s"
  "rs_rpm_limiters (store_tpm k c s) = rs_rpm_limiters s"
  by (simp_all add: tpm_counter_for_def store_tpm_def split: option.splits)

definition tpm_of :: "'g rate_store \<Rightarrow> string \<Rightarrow> tpm_counter" where
  "tpm_of s key = (case rs_tpm_counters s key of None \<Rightarrow> fresh_tpm | Some c \<Rightarrow> c)"

lemma record_tpm_eq:
  "record_tpm now key tokens s =
     (let (n, c') = tpm_add tokens now (tpm_of s key)
      in (case rl_max_tpm (rate_limit_for s key) of
            None \<Rightarrow> Inr n
          | Some mx \<Rightarrow> if n > mx then Inl (Tpm n mx) else Inr n,
          store_tpm key c' (snd (tpm_counter_for key s))))"
  by (simp add: record_tpm_def tpm_of_def split_beta Let_def table_simps split: option.split)

lemma tpm_of_record:
  "tpm_of (snd (record_tpm now key tokens s)) k =
     (if k = key then snd (tpm_add tokens now (tpm_of s key)) else tpm_of s k)"
  by (simp add: record_tpm_eq split_beta Let_def tpm_of_def[of _ k] tpm_table.store_lookup
      tpm_table.fetch_lookup)

lemma tpm_add_eq:
  "fst (tpm_add n now c) = tpm_current now c + n"
  "tpm_current now (snd (tpm_add n now c)) = tpm_current now c + n"
  by (simp_all add: tpm_add_def tpm_current_def saturating_sub_def Let_def)

lemma fst_current_tpm: "fst (current_tpm now key s) = tpm_current now (tpm_of s key)"
  by (simp add: current_tpm_def split_beta table_simps tpm_of_def)

lemma rate_limit_for_frame [simp]:
  "rate_limit_for (snd (record_tpm now key n s)) = rate_limit_for s"
  "rs_rpm_limiters (snd (record_tpm now key n s)) = rs_rpm_limiters s"
  by (simp_all add: record_tpm_eq split_beta Let_def rate_limit_for_def fun_eq_iff)

text \<open>C21: \<open>record_tpm\<close> adds the tokens to what the key's window holds at that moment (nothing, when
  60 seconds have passed), reports the new total, as an error exactly when it is above the configured
  limit, stores it even then, and touches no other key.\<close>
theorem record_tpm_exact:
  "case record_tpm now key tokens s of (res, s') \<Rightarrow>
     (let total = fst (current_tpm now key s) + tokens
      in res = (case rl_max_tpm (rate_limit_for s key) of
                  None \<Rightarrow> Inr total
                | Some mx \<Rightarrow> if mx < total then Inl (Tpm total mx) else Inr total)
         \<and> fst (current_tpm now key s') = total
         \<and> tpm_of s' = (tpm_of s)(key := tpm_of s' key))"
  by (simp add: split_beta Let_def fst_current_tpm tpm_of_record tpm_add_eq fun_eq_iff)
     (simp add: record_tpm_eq split_beta Let_def tpm_add_eq split: option.split)

lemma unat_div_ceil:
  "unat (div_ceil a b) = (if b = 0 then 0 else unat a div unat b + (if unat a mod unat b = 0 then 0 else 1))"
proof (cases "b = 0 \<or> unat (a mod b) = 0")
  case True
  then have "\<not> (a mod b > 0 \<and> b > 0)" by (metis unat_eq_0 word_gt_0)
  then have "div_ceil a b = a div b" by (simp add: div_ceil_def Let_def)
  with True show ?thesis by (auto simp: unat_div unat_mod)
next
  case False
  then have g: "a mod b > 0 \<and> b > 0" by (metis unat_eq_0 word_gt_0)
  from False have b: "0 < unat b" and m: "unat a mod unat b \<noteq> 0"
    by (simp_all add: unat_gt_0 unat_mod)
  have "unat a div unat b < unat a"
  proof (rule div_less_dividend)
    show "1 < unat b" using b m by (cases "unat b = 1") auto
    show "0 < unat a" using m by (cases "unat a = 0") auto
  qed
  then have "unat (a div b) + 1 < 2 ^ LENGTH(64)"
    using unsigned_less[of a, where ?'a = nat] by (simp add: unat_div)
  then have "unat (a div b + 1) = unat (a div b) + 1"
    using unat_add_lem[of "a div b" 1] by simp
  with g m False show ?thesis
    by (simp only: div_ceil_def Let_def unat_div if_True) simp
qed

lemma unat_ucast_u32: "unat (ucast (x :: u32) :: u64) = unat x"
  by transfer (simp add: take_bit_int_eq_self)

lemma retry_after_nat:
  "unat (retry_after_secs rpm) =
     (if rpm = 0 then 60 else 60 div unat rpm + (if 60 mod unat rpm = 0 then 0 else 1))"
proof (cases "rpm = 0")
  case False
  then have "(ucast rpm :: u64) \<noteq> 0" using unat_ucast_u32[of rpm] by (metis unat_0 unat_eq_0)
  with False show ?thesis by (simp add: retry_after_secs_def unat_div_ceil unat_ucast_u32)
qed (simp add: retry_after_secs_def)

lemma ceil_div_bounds:
  fixes r :: nat
  assumes "0 < r"
  defines "q \<equiv> 60 div r + (if 60 mod r = 0 then 0 else 1)"
  shows "1 \<le> q" "q \<le> 60" "60 \<le> q * r" "(q - 1) * r < 60"
proof -
  define d m where "d = 60 div r" and "m = 60 mod r"
  have dm: "60 = d * r + m" and lt: "m < r" using assms(1) by (simp_all add: d_def m_def)
  have q: "q = d + (if m = 0 then 0 else 1)" by (simp add: q_def d_def m_def)
  then show "60 \<le> q * r" using dm lt by (simp add: add_mult_distrib)
  then show "1 \<le> q" by (cases q) simp_all
  show "(q - 1) * r < 60"
    using dm lt assms(1) \<open>1 \<le> q\<close> by (auto simp: q diff_mult_distrib split: if_splits)
  show "q \<le> 60"
  proof (cases "r = 1")
    case False
    then have "60 div r < 60" using assms(1) by simp
    then show ?thesis by (simp add: q_def)
  next
    case True
    then show ?thesis by (simp add: q_def)
  qed
qed

text \<open>The \<open>Retry-After\<close> hint is between one second and a minute, and is the least whole number of
  seconds in which \<open>rpm\<close> requests per minute refill one request.\<close>
theorem retry_after_least:
  "let s = unat (retry_after_secs rpm)
   in 1 \<le> s \<and> s \<le> 60 \<and> (if rpm = 0 then s = 60 else 60 \<le> s * unat rpm \<and> (s - 1) * unat rpm < 60)"
  using ceil_div_bounds[of "unat rpm"] by (simp add: Let_def retry_after_nat unat_gt_0)

section \<open>Requests per minute\<close>

text \<open>
  A sequence of admission checks, each with its clock reading and its key; the verdicts are
  returned in order with the keys they were given for.
\<close>

fun run_checks ::
  "('t \<Rightarrow> string \<Rightarrow> 'g \<Rightarrow> bool \<times> 'g) \<Rightarrow> ('t \<times> string) list \<Rightarrow> 'g rate_store
     \<Rightarrow> (string \<times> (limit_exceeded + unit)) list" where
  "run_checks check_key [] s = []"
| "run_checks check_key ((now, key) # rs) s =
     (let (res, s') = check_rpm check_key now key s in (key, res) # run_checks check_key rs s')"

text \<open>The governor of one key alone: the verdicts it gives to a sequence of clock readings.\<close>

fun governor_verdicts ::
  "('t \<Rightarrow> string \<Rightarrow> 'g \<Rightarrow> bool \<times> 'g) \<Rightarrow> string \<Rightarrow> 't list \<Rightarrow> 'g \<Rightarrow> bool list" where
  "governor_verdicts check_key key [] g = []"
| "governor_verdicts check_key key (t # ts) g =
     (let (ok, g') = check_key t key g in ok # governor_verdicts check_key key ts g')"

text \<open>
  The contract of \<open>check_rpm\<close> for one key: without a positive limit every request is admitted,
  with one the key's own governor decides.
\<close>

definition admission_spec ::
  "(u32 \<Rightarrow> 'g) \<Rightarrow> ('t \<Rightarrow> string \<Rightarrow> 'g \<Rightarrow> bool \<times> 'g) \<Rightarrow> (string \<rightharpoonup> rate_limit) \<Rightarrow> string \<Rightarrow> 't list
     \<Rightarrow> (limit_exceeded + unit) list" where
  "admission_spec keyed check_key limits key ts =
     (case Option.bind (limits key) rl_max_rpm of
        None \<Rightarrow> map (\<lambda>_. Inr ()) ts
      | Some rpm \<Rightarrow>
          if rpm = 0 then map (\<lambda>_. Inr ()) ts
          else map (\<lambda>ok. if ok then Inr () else Inl (Rpm rpm))
                 (governor_verdicts check_key key ts (keyed rpm)))"

lemma check_rpm_frame:
  "rs_limits (snd (check_rpm ck now key s)) = rs_limits s"
  "rs_tpm_counters (snd (check_rpm ck now key s)) = rs_tpm_counters s"
  "k \<noteq> key \<Longrightarrow> rs_rpm_limiters (snd (check_rpm ck now key s)) k = rs_rpm_limiters s k"
  by (simp_all add: check_rpm_def Let_def split_beta split: option.split)

lemma rate_limit_for_limiters [simp]: "rate_limit_for (s\<lparr>rs_rpm_limiters := x\<rparr>) = rate_limit_for s"
  by (simp add: rate_limit_for_def fun_eq_iff)

definition key_checks :: "string \<Rightarrow> ('t \<times> string) list \<Rightarrow> 't list" where
  "key_checks key rs = map fst (filter (\<lambda>(t, k). k = key) rs)"

lemma key_checks_simps [simp]:
  "key_checks key [] = []"
  "key_checks key ((t, k) # rs) = (if k = key then t # key_checks key rs else key_checks key rs)"
  by (simp_all add: key_checks_def)

lemma run_checks_at_key:
  "map snd (filter (\<lambda>(k, r). k = key) (run_checks ck rs s)) =
     (case rl_max_rpm (rate_limit_for s key) of
        None \<Rightarrow> map (\<lambda>_. Inr ()) (key_checks key rs)
      | Some rpm \<Rightarrow>
         (case rs_rpm_limiters s key of
            None \<Rightarrow> map (\<lambda>_. Inr ()) (key_checks key rs)
          | Some g \<Rightarrow> map (\<lambda>ok. if ok then Inr () else Inl (Rpm rpm))
                        (governor_verdicts ck key (key_checks key rs) g)))"
proof (induction rs arbitrary: s)
  case (Cons r rs)
  obtain t k where r: "r = (t, k)" by (cases r)
  let ?s' = "snd (check_rpm ck t k s)"
  have limit: "rate_limit_for ?s' = rate_limit_for s"
    by (simp add: rate_limit_for_def check_rpm_frame fun_eq_iff)
  show ?case
  proof (cases "k = key")
    case False
    then show ?thesis
      using Cons.IH[of ?s'] by (simp add: r split_beta limit check_rpm_frame(3)[of key k ck t s]
          split: option.split)
  next
    case True
    show ?thesis
      using Cons.IH[of ?s']
      by (cases "rl_max_rpm (rate_limit_for s key)"; cases "rs_rpm_limiters s key")
        (simp_all add: r True split_beta Let_def check_rpm_def)
  qed
qed (simp split: option.splits)

text \<open>C22: whatever the interleaving of the checks of different keys, each key sees exactly the
  verdicts its own fresh governor (sized to its own quota) gives to its own requests: no key's traffic
  changes the admission of another key.\<close>
theorem rpm_keys_independent:
  "map snd (filter (\<lambda>(k, r). k = key) (run_checks check_key rs (rate_store_new keyed limits))) =
     admission_spec keyed check_key limits key (key_checks key rs)"
  by (auto simp: run_checks_at_key admission_spec_def rate_store_new_def rate_limit_for_def
      rate_unlimited_def split: option.splits)

text \<open>A key configured with zero requests per minute gets no limiter at all: every one of its
  requests is admitted, although the \<open>Retry-After\<close> helper answers a full minute for that rate.\<close>
theorem zero_rpm_is_unlimited:
  assumes "limits key = Some limit" and "rl_max_rpm limit = Some 0"
  shows "list_all (\<lambda>(k, r). k = key \<longrightarrow> r = Inr ())
           (run_checks check_key rs (rate_store_new keyed limits))
    \<and> retry_after_secs 0 = 60"
proof -
  let ?run = "run_checks check_key rs (rate_store_new keyed limits)"
  have "map snd (filter (\<lambda>(k, r). k = key) ?run) = map (\<lambda>_. Inr ()) (key_checks key rs)"
    using assms by (simp add: run_checks_at_key rate_store_new_def rate_limit_for_def)
  then have "set (map snd (filter (\<lambda>(k, r). k = key) ?run)) \<subseteq> {Inr ()}" by auto
  then show ?thesis
    by (auto simp: list_all_iff retry_after_secs_def image_subset_iff)
qed

lemma zero_rpm_is_unlimited_witness:
  "list_all (\<lambda>(k, r). k = ''free'' \<longrightarrow> r = Inr ())
     (run_checks (\<lambda>t k g. (0 < g, g - 1)) [(1::nat, ''free''), (1, ''free''), (2, ''free'')]
       (rate_store_new unat [''free'' \<mapsto> \<lparr>rl_max_rpm = Some 0, rl_max_tpm = None\<rparr>]))"
  by (rule zero_rpm_is_unlimited[where limit = "\<lparr>rl_max_rpm = Some 0, rl_max_tpm = None\<rparr>", THEN conjunct1])
    simp_all

section \<open>Tokens per minute\<close>

text \<open>A sequence of records of one key, each with its clock reading; the results in order.\<close>

fun run_tpm :: "string \<Rightarrow> (u64 \<times> u64) list \<Rightarrow> 'g rate_store \<Rightarrow> (limit_exceeded + u64) list" where
  "run_tpm key [] s = []"
| "run_tpm key ((now, n) # rs) s =
     (let (res, s') = record_tpm now key n s in res # run_tpm key rs s')"

definition tokens_in :: "nat \<Rightarrow> nat \<Rightarrow> (u64 \<times> u64) list \<Rightarrow> nat" where
  "tokens_in a b rs = (\<Sum>(t, n) \<leftarrow> filter (\<lambda>(t, n). a \<le> unat t \<and> unat t < b) rs. unat n)"

lemma tokens_in_simps [simp]:
  "tokens_in a b [] = 0"
  "tokens_in a b ((t, n) # rs) =
     (if a \<le> unat t \<and> unat t < b then unat n else 0) + tokens_in a b rs"
  by (simp_all add: tokens_in_def)

text \<open>
  What a counter, last used at \<open>l\<close>, can still let into an interval \<open>[a, a + 60)\<close>: two limits while
  the interval has not begun; inside it, what is left of the current window and, when that window
  began before the interval, one more limit; nothing once a window began after it.
\<close>

definition interval_room :: "nat \<Rightarrow> nat \<Rightarrow> nat \<Rightarrow> tpm_counter \<Rightarrow> nat" where
  "interval_room mx a l c =
     (if l < a then 2 * mx
      else if unat (tc_window_start c) < a then 2 * mx - unat (tc_tokens c)
      else if unat (tc_window_start c) < a + 60 then mx - unat (tc_tokens c) else 0)"

lemma tpm_add_cases:
  assumes "unat (tc_window_start c) \<le> unat now"
  obtains (reset) "unat (tc_window_start c) + 60 \<le> unat now"
      "tpm_add n now c = (n, c\<lparr>tc_window_start := now, tc_tokens := n\<rparr>)"
  | (keep) "unat now < unat (tc_window_start c) + 60"
      "tpm_add n now c = (tc_tokens c + n, c\<lparr>tc_tokens := tc_tokens c + n\<rparr>)"
proof (cases "unat (tc_window_start c) + 60 \<le> unat now")
  case True
  then have "saturating_sub now (tc_window_start c) \<ge> 60"
    using assms by (simp add: saturating_sub_def word_le_nat_alt word_less_nat_alt unat_sub)
  with True show ?thesis by (intro reset) (simp_all add: tpm_add_def Let_def)
next
  case False
  then have "\<not> saturating_sub now (tc_window_start c) \<ge> 60"
    using assms by (simp add: saturating_sub_def word_le_nat_alt word_less_nat_alt unat_sub)
  with False show ?thesis by (intro keep) (simp_all add: tpm_add_def Let_def)
qed


lemma tpm_room_step:
  fixes c :: tpm_counter
  assumes win: "unat (tc_window_start c) \<le> l" "l \<le> unat now"
    and small: "unat (tc_tokens c) \<le> mx" "mx + unat n < 2 ^ 64"
    and ok: "unat (fst (tpm_add n now c)) \<le> mx"
  shows "(if a \<le> unat now \<and> unat now < a + 60 then unat n else 0)
        + interval_room mx a (unat now) (snd (tpm_add n now c)) \<le> interval_room mx a l c"
    and "unat (tc_tokens (snd (tpm_add n now c))) \<le> mx"
    and "unat (tc_window_start (snd (tpm_add n now c))) \<le> unat now"
proof -
  have nowrap: "unat (tc_tokens c + n) = unat (tc_tokens c) + unat n"
    using small by (simp add: unat_add_lem[THEN iffD1])
  have win': "unat (tc_window_start c) \<le> unat now" using win by simp
  then show "(if a \<le> unat now \<and> unat now < a + 60 then unat n else 0)
      + interval_room mx a (unat now) (snd (tpm_add n now c)) \<le> interval_room mx a l c"
  proof (cases rule: tpm_add_cases[where n = n])
    case reset
    then show ?thesis using ok small win by (auto simp: interval_room_def)
  next
    case keep
    then show ?thesis using ok small win nowrap by (auto simp: interval_room_def)
  qed
  show "unat (tc_tokens (snd (tpm_add n now c))) \<le> mx"
    "unat (tc_window_start (snd (tpm_add n now c))) \<le> unat now"
    using win' ok by (cases rule: tpm_add_cases[where n = n]; simp)+
qed

lemma run_tpm_room:
  assumes "rl_max_tpm (rate_limit_for s key) = Some mx"
    and "sorted (l # map (unat \<circ> fst) rs)"
    and "list_all (\<lambda>(t, n). unat mx + unat n < 2 ^ 64) rs"
    and "unat (tc_tokens (tpm_of s key)) \<le> unat mx"
    and "unat (tc_window_start (tpm_of s key)) \<le> l"
    and "list_all (\<lambda>r. \<exists>n. r = Inr n) (run_tpm key rs s)"
  shows "tokens_in a (a + 60) rs \<le> interval_room (unat mx) a l (tpm_of s key)"
  using assms
proof (induction rs arbitrary: s l)
  case (Cons r rs)
  obtain t n where r: "r = (t, n)" by (cases r)
  let ?c = "tpm_of s key" and ?s' = "snd (record_tpm t key n s)"
  have c': "tpm_of ?s' key = snd (tpm_add n t ?c)" by (simp add: tpm_of_record)
  have ok: "unat (fst (tpm_add n t ?c)) \<le> unat mx"
    using Cons.prems(1,6)
    by (auto simp: r record_tpm_eq split_beta Let_def word_le_nat_alt not_less split: if_splits)
  have now: "l \<le> unat t" and nw: "unat mx + unat n < 2 ^ 64"
    using Cons.prems(2,3) by (simp_all add: r)
  note step = tpm_room_step[OF Cons.prems(5) now Cons.prems(4) nw ok]
  have "tokens_in a (a + 60) rs \<le> interval_room (unat mx) a (unat t) (tpm_of ?s' key)"
    by (rule Cons.IH) (use Cons.prems step(2,3) in \<open>simp_all add: c' r split_beta\<close>)
  then show ?case using step(1)[of a] by (simp add: r c')
qed simp

text \<open>C20: as long as every \<open>record_tpm\<close> of a key reports success (clock not running backwards, sums not
  wrapping), any 60-second interval carries at most twice the configured tokens per minute: what the
  reset window, instead of a strict one, can let through.\<close>
theorem tpm_two_windows:
  assumes "limits key = Some limit" and "rl_max_tpm limit = Some mx"
    and "sorted (map (unat \<circ> fst) rs)"
    and "list_all (\<lambda>(t, n). unat mx + unat n < 2 ^ 64) rs"
    and "list_all (\<lambda>r. \<exists>n. r = Inr n) (run_tpm key rs (rate_store_new keyed limits))"
  shows "tokens_in a (a + 60) rs \<le> 2 * unat mx"
proof -
  let ?s = "rate_store_new keyed limits"
  have "tokens_in a (a + 60) rs \<le> interval_room (unat mx) a 0 (tpm_of ?s key)"
    by (rule run_tpm_room)
      (use assms in \<open>simp_all add: rate_store_new_def rate_limit_for_def tpm_of_def fresh_tpm_def\<close>)
  also have "\<dots> \<le> 2 * unat mx" by (auto simp: interval_room_def)
  finally show ?thesis .
qed

lemma tpm_two_windows_witness:
  "tokens_in 159 219 [(100, 0), (159, 500), (160, 500)] \<le> 2 * unat (500 :: u64)
   \<and> tokens_in 159 219 [(100, 0), (159, 500), (160, 500)] = 1000"
proof
  show "tokens_in 159 219 [(100, 0), (159, 500), (160, 500)] \<le> 2 * unat (500 :: u64)"
    using tpm_two_windows[where key = "''k''" and limits = "[''k'' \<mapsto> \<lparr>rl_max_rpm = None, rl_max_tpm = Some 500\<rparr>]"
        and limit = "\<lparr>rl_max_rpm = None, rl_max_tpm = Some 500\<rparr>" and mx = 500 and keyed = unat and a = 159
        and rs = "[(100, 0), (159, 500), (160, 500)]"]
    by (simp add: rate_store_new_def rate_limit_for_def record_tpm_eq tpm_of_def fresh_tpm_def
        tpm_add_def saturating_sub_def store_tpm_def tpm_counter_for_def Let_def word_le_nat_alt word_less_nat_alt)
qed simp

end
