(* ===== verification/Metrics.thy ===== *)
theory Metrics
  imports Scanner "HOL-Library.Multiset" "HOL-Library.AList" "HOL-Library.List_Lexorder" "HOL-Library.Char_ord"
begin

text \<open>
  \<open>src/metrics.rs\<close>: labelled counters and their rendering in the Prometheus text format.  A hash
  map is an association list with distinct keys in an arbitrary order; that nothing depends on the
  order is proved, not assumed.  The format itself is specified by a parser.
\<close>

section \<open>Labelled counters\<close>

type_synonym labeled_counters = "(string \<times> u64) list"

definition get_or_create :: "string \<Rightarrow> labeled_counters \<Rightarrow> u64 \<times> labeled_counters" where
  "get_or_create key t =
     (case map_of t key of
        Some c \<Rightarrow> (c, t)
      | None \<Rightarrow> (0, (key, 0) # t))"

definition counters_inc :: "string \<Rightarrow> labeled_counters \<Rightarrow> labeled_counters" where
  "counters_inc key t = (let (c, t') = get_or_create key t in AList.update key (c + 1) t')"

definition counters_add :: "string \<Rightarrow> u64 \<Rightarrow> labeled_counters \<Rightarrow> labeled_counters" where
  "counters_add key n t = (let (c, t') = get_or_create key t in AList.update key (c + n) t')"

definition labeled_snapshot :: "labeled_counters \<Rightarrow> (string \<times> u64) list" where
  "labeled_snapshot t = sort_key fst t"

section \<open>Labels\<close>

abbreviation "newline \<equiv> CHR 0x0A"
abbreviation "dquote \<equiv> CHR 0x22"
abbreviation "backslash \<equiv> CHR 0x5C"

text \<open>\<open>str::replace\<close> with a one-character pattern.\<close>

definition replace_char :: "char \<Rightarrow> string \<Rightarrow> string \<Rightarrow> string" where
  "replace_char c by s = concat (map (\<lambda>x. if x = c then by else [x]) s)"

definition escape :: "string \<Rightarrow> string" where
  "escape s =
     replace_char newline [backslash, CHR ''n'']
       (replace_char dquote [backslash, dquote]
         (replace_char backslash [backslash, backslash] s))"

definition request_label :: "string \<Rightarrow> string \<Rightarrow> string \<Rightarrow> string" where
  "request_label backend model status_class =
     ''{backend='' @ [dquote] @ escape backend @ [dquote] @ '',model='' @ [dquote] @ escape model @ [dquote] @
     '',status='' @ [dquote] @ escape status_class @ [dquote] @ ''}''"

definition token_label :: "string \<Rightarrow> string \<Rightarrow> string" where
  "token_label key kind =
     ''{key='' @ [dquote] @ escape key @ [dquote] @ '',kind='' @ [dquote] @ kind @ [dquote] @ ''}''"

definition backend_label :: "string \<Rightarrow> string" where
  "backend_label backend = ''{backend='' @ [dquote] @ escape backend @ [dquote] @ ''}''"

definition key_label :: "string \<Rightarrow> string" where
  "key_label key = ''{key='' @ [dquote] @ escape key @ [dquote] @ ''}''"

section \<open>The metrics handle\<close>

record metrics =
  me_requests :: labeled_counters
  me_tokens :: labeled_counters
  me_upstream_errors :: labeled_counters
  me_rate_limit_rejections :: labeled_counters
  me_budget_rejections :: labeled_counters

definition metrics_new :: metrics where
  "metrics_new = \<lparr>me_requests = [], me_tokens = [], me_upstream_errors = [],
     me_rate_limit_rejections = [], me_budget_rejections = []\<rparr>"

definition record_request :: "string \<Rightarrow> string \<Rightarrow> string \<Rightarrow> metrics \<Rightarrow> metrics" where
  "record_request backend model status_class m =
     m\<lparr>me_requests := counters_inc (request_label backend model status_class) (me_requests m)\<rparr>"

definition usage_kinds :: "usage \<Rightarrow> (string \<times> u64) list" where
  "usage_kinds u = [(''prompt'', us_prompt u), (''completion'', us_completion u), (''total'', us_total u)]"

definition record_tokens :: "string \<Rightarrow> usage \<Rightarrow> metrics \<Rightarrow> metrics" where
  "record_tokens key u m =
     m\<lparr>me_tokens := fold (\<lambda>(kind, val). counters_add (token_label key kind) val) (usage_kinds u) (me_tokens m)\<rparr>"

definition record_upstream_error :: "string \<Rightarrow> metrics \<Rightarrow> metrics" where
  "record_upstream_error backend m =
     m\<lparr>me_upstream_errors := counters_inc (backend_label backend) (me_upstream_errors m)\<rparr>"

definition record_rate_limit_rejection :: "string \<Rightarrow> metrics \<Rightarrow> metrics" where
  "record_rate_limit_rejection key m =
     m\<lparr>me_rate_limit_rejections := counters_inc (key_label key) (me_rate_limit_rejections m)\<rparr>"

definition record_budget_rejection :: "string \<Rightarrow> metrics \<Rightarrow> metrics" where
  "record_budget_rejection key m =
     m\<lparr>me_budget_rejections := counters_inc (key_label key) (me_budget_rejections m)\<rparr>"

section \<open>Rendering\<close>

definition write_family :: "string \<Rightarrow> string \<Rightarrow> string \<Rightarrow> (string \<times> u64) list \<Rightarrow> string" where
  "write_family name ty help pairs =
     (if pairs = [] then []
      else ''# HELP '' @ name @ '' '' @ help @ [newline] @ ''# TYPE '' @ name @ '' '' @ ty @ [newline] @
           concat (map (\<lambda>(labels, v). name @ labels @ '' '' @ show_nat (unat v) @ [newline]) pairs))"

definition render :: "metrics \<Rightarrow> string" where
  "render m =
     write_family ''patchbay_requests_total'' ''counter'' ''Total requests received.''
       (labeled_snapshot (me_requests m)) @
     write_family ''patchbay_tokens_total'' ''counter'' ''Total tokens consumed.''
       (labeled_snapshot (me_tokens m)) @
     write_family ''patchbay_upstream_errors_total'' ''counter'' ''Upstream non-2xx or connection errors.''
       (labeled_snapshot (me_upstream_errors m)) @
     write_family ''patchbay_rate_limit_rejections_total'' ''counter'' ''Requests rejected by rate limiter.''
       (labeled_snapshot (me_rate_limit_rejections m)) @
     write_family ''patchbay_budget_rejections_total'' ''counter'' ''Requests rejected by token budget.''
       (labeled_snapshot (me_budget_rejections m))"

section \<open>The counters as an accumulating table\<close>

lemma get_or_create_lookup [table_simps]:
  "fst (get_or_create k t) = (case map_of t k of None \<Rightarrow> 0 | Some c \<Rightarrow> c)"
  "map_of (snd (get_or_create k t)) k' = (if k' = k then Some (fst (get_or_create k t)) else map_of t k')"
  by (auto simp: get_or_create_def split: option.splits)

lemma counters_inc_add: "counters_inc key t = counters_add key 1 t"
  by (simp add: counters_inc_def counters_add_def)

interpretation labeled: accumulating_table map_of get_or_create AList.update 0
  counters_add "\<lambda>n c. c + n" "\<lambda>c. c" "\<lambda>n. n"
  by unfold_locales
    (simp_all add: table_simps update_conv' counters_add_def split_beta)

definition counter_value :: "labeled_counters \<Rightarrow> string \<Rightarrow> u64" where
  "counter_value t label = (case map_of t label of None \<Rightarrow> 0 | Some c \<Rightarrow> c)"

lemma counter_value_add [simp]:
  "counter_value (counters_add k n t) k' = counter_value t k' + (if k' = k then n else 0)"
  using labeled.total_record[of k n t k'] by (simp add: counter_value_def)

lemma counter_value_inc [simp]:
  "counter_value (counters_inc k t) k' = counter_value t k' + (if k' = k then 1 else 0)"
  by (simp add: counters_inc_add)

lemma keys_add: "fst ` set (counters_add k n t) = insert k (fst ` set t)"
proof -
  have "dom (map_of (counters_add k n t)) = insert k (dom (map_of t))"
    by (auto simp: counters_add_def split_beta update_conv' table_simps split: if_splits)
  then show ?thesis by (simp only: dom_map_of_conv_image_fst)
qed

lemma distinct_add: "distinct (map fst t) \<Longrightarrow> distinct (map fst (counters_add k n t))"
  by (auto simp: counters_add_def get_or_create_def map_of_eq_None_iff intro!: distinct_update
      split: option.splits)

section \<open>A reader of the text format\<close>

text \<open>
  The format's own rules, as a parser: a label value runs to the first unescaped quote, where
  \<open>\n\<close> stands for a newline and a backslash protects any other character; a label set is
  \<open>{name="value",...}\<close>; a sample line is a name, a label set, a blank and a number; a line that
  begins with \<open>#\<close> is a comment.
\<close>

fun read_value :: "string \<Rightarrow> (string \<times> string) option" where
  "read_value [] = None"
| "read_value (c # cs) =
     (if c = dquote then Some ([], cs)
      else if c = backslash then
        (case cs of
           [] \<Rightarrow> None
         | d # ds \<Rightarrow> map_option (apfst ((#) (if d = CHR ''n'' then newline else d))) (read_value ds))
      else map_option (apfst ((#) c)) (read_value cs))"

lemma read_value_length: "read_value cs = Some (v, r) \<Longrightarrow> length r < length cs"
  by (induction cs arbitrary: v r rule: read_value.induct)
    (fastforce split: if_splits list.splits)+

definition read_pair :: "string \<Rightarrow> ((string \<times> string) \<times> string) option" where
  "read_pair cs =
     (case dropWhile (\<lambda>c. c \<noteq> CHR ''='') cs of
        _ # q # r \<Rightarrow>
          if q = dquote
          then map_option (\<lambda>(v, r'). ((takeWhile (\<lambda>c. c \<noteq> CHR ''='') cs, v), r')) (read_value r)
          else None
      | _ \<Rightarrow> None)"

lemma read_pair_length: "read_pair cs = Some (p, r) \<Longrightarrow> length r < length cs"
proof -
  assume a: "read_pair cs = Some (p, r)"
  have "length (dropWhile (\<lambda>c. c \<noteq> CHR ''='') cs) \<le> length cs" by (rule length_dropWhile_le)
  with a show ?thesis
    by (auto simp: read_pair_def dest!: read_value_length split: list.splits if_splits)
qed

function read_labels :: "string \<Rightarrow> ((string \<times> string) list \<times> string) option" where
  "read_labels cs =
     (case read_pair cs of
        None \<Rightarrow> None
      | Some (p, r) \<Rightarrow>
         (case r of
            [] \<Rightarrow> None
          | c # r' \<Rightarrow>
             if c = CHR ''}'' then Some ([p], r')
             else if c = CHR '','' then map_option (apfst ((#) p)) (read_labels r')
             else None))"
  by pat_completeness auto

termination read_labels
  by (relation "measure length") (auto dest!: read_pair_length)

declare read_labels.simps [simp del]

type_synonym sample = "string \<times> (string \<times> string) list \<times> nat"

definition read_sample :: "string \<Rightarrow> sample option" where
  "read_sample line =
     (case dropWhile (\<lambda>c. c \<noteq> CHR ''{'') line of
        [] \<Rightarrow> None
      | _ # cs \<Rightarrow>
         (case read_labels cs of
            Some (ls, b # ds) \<Rightarrow>
              if b = CHR '' '' then Some (takeWhile (\<lambda>c. c \<noteq> CHR ''{'') line, ls, read_nat ds) else None
          | _ \<Rightarrow> None))"

fun lines_acc :: "string \<Rightarrow> string \<Rightarrow> string list" where
  "lines_acc acc [] = (if acc = [] then [] else [rev acc])"
| "lines_acc acc (c # cs) = (if c = newline then rev acc # lines_acc [] cs else lines_acc (c # acc) cs)"

definition text_lines :: "string \<Rightarrow> string list" where
  "text_lines = lines_acc []"

definition is_comment :: "string \<Rightarrow> bool" where
  "is_comment line \<longleftrightarrow> (case line of [] \<Rightarrow> True | c # _ \<Rightarrow> c = CHR ''#'')"

definition read_exposition :: "string \<Rightarrow> sample option list" where
  "read_exposition text = map read_sample (filter (\<lambda>l. \<not> is_comment l) (text_lines text))"

section \<open>What is written is read back\<close>

fun escape_char :: "char \<Rightarrow> string" where
  "escape_char c =
     (if c = backslash then [backslash, backslash]
      else if c = dquote then [backslash, dquote]
      else if c = newline then [backslash, CHR ''n'']
      else [c])"

lemma escape_map: "escape s = concat (map escape_char s)"
  by (induction s) (simp_all add: escape_def replace_char_def)

lemma read_value_escape: "read_value (escape s @ dquote # rest) = Some (s, rest)"
  by (induction s) (simp_all add: escape_map)

lemma newline_escape [simp]: "newline \<notin> set (escape s)"
  by (auto simp: escape_map split: if_splits)

text \<open>The label sets that the constructors above build.\<close>

definition format_pair :: "string \<times> string \<Rightarrow> string" where
  "format_pair p = fst p @ CHR ''='' # dquote # escape (snd p) @ [dquote]"

fun format_pairs :: "(string \<times> string) list \<Rightarrow> string" where
  "format_pairs [] = ''}''"
| "format_pairs [p] = format_pair p @ ''}''"
| "format_pairs (p # ps) = format_pair p @ '','' @ format_pairs ps"

definition format_labels :: "(string \<times> string) list \<Rightarrow> string" where
  "format_labels ls = CHR ''{'' # format_pairs ls"

definition plain_name :: "string \<Rightarrow> bool" where
  "plain_name n \<longleftrightarrow> CHR ''='' \<notin> set n \<and> newline \<notin> set n"

definition label_set :: "(string \<times> string) list \<Rightarrow> bool" where
  "label_set ls \<longleftrightarrow> ls \<noteq> [] \<and> list_all (plain_name \<circ> fst) ls"

lemma takeWhile_name:
  "c \<notin> set n \<Longrightarrow> takeWhile (\<lambda>x. x \<noteq> c) (n @ c # r) = n"
  "c \<notin> set n \<Longrightarrow> dropWhile (\<lambda>x. x \<noteq> c) (n @ c # r) = c # r"
  by (induction n) auto

lemma read_pair_format:
  "plain_name (fst p) \<Longrightarrow> read_pair (format_pair p @ rest) = Some (p, rest)"
  by (cases p) (simp add: read_pair_def format_pair_def plain_name_def takeWhile_name read_value_escape)

lemma read_labels_format:
  "label_set ls \<Longrightarrow> read_labels (format_pairs ls @ rest) = Some (ls, rest)"
proof (induction ls rule: format_pairs.induct)
  case (2 p)
  then show ?case
    by (subst read_labels.simps) (simp add: label_set_def read_pair_format)
next
  case (3 p q ps)
  then show ?case
    by (subst read_labels.simps) (simp add: label_set_def read_pair_format)
qed (simp add: label_set_def)

lemma format_labels_inject:
  "label_set ls \<Longrightarrow> label_set ls' \<Longrightarrow> format_labels ls = format_labels ls' \<longleftrightarrow> ls = ls'"
  using read_labels_format[of ls "[]"] read_labels_format[of ls' "[]"]
  by (metis format_labels_def list.inject option.inject prod.inject)

lemma newline_format_pair: "plain_name (fst p) \<Longrightarrow> newline \<notin> set (format_pair p)"
  by (simp add: format_pair_def plain_name_def)

lemma newline_format_pairs: "list_all (plain_name \<circ> fst) ls \<Longrightarrow> newline \<notin> set (format_pairs ls)"
  by (induction ls rule: format_pairs.induct) (simp_all add: newline_format_pair)

lemma newline_format: "label_set ls \<Longrightarrow> newline \<notin> set (format_labels ls)"
  by (simp add: format_labels_def label_set_def newline_format_pairs)

lemma labels_are_sets:
  "request_label b m s = format_labels [(''backend'', b), (''model'', m), (''status'', s)]"
  "backend_label b = format_labels [(''backend'', b)]"
  "key_label k = format_labels [(''key'', k)]"
  by (simp_all add: request_label_def backend_label_def key_label_def format_labels_def format_pair_def)

lemma token_label_is_set:
  "escape kind = kind \<Longrightarrow> token_label k kind = format_labels [(''key'', k), (''kind'', kind)]"
  by (simp add: token_label_def format_labels_def format_pair_def)


lemma label_sets:
  "label_set [(''backend'', b), (''model'', m), (''status'', s)]"
  "label_set [(''backend'', b)]" "label_set [(''key'', k)]" "label_set [(''key'', k), (''kind'', kind)]"
  by (simp_all add: label_set_def plain_name_def)

lemma usage_kinds_plain:
  "escape ''prompt'' = ''prompt''" "escape ''completion'' = ''completion''" "escape ''total'' = ''total''"
  by (simp_all add: escape_def replace_char_def)

lemma label_injects:
  "request_label b m s = request_label b' m' s' \<longleftrightarrow> b = b' \<and> m = m' \<and> s = s'"
  "key_label k = key_label k' \<longleftrightarrow> k = k'"
  "backend_label b = backend_label b' \<longleftrightarrow> b = b'"
  by (simp_all add: labels_are_sets format_labels_inject label_sets)

lemma token_label_inject:
  "escape kind = kind \<Longrightarrow> escape kind' = kind' \<Longrightarrow>
     token_label k kind = token_label k' kind' \<longleftrightarrow> k = k' \<and> kind = kind'"
  by (simp add: token_label_is_set format_labels_inject label_sets)

text \<open>Labels never collide: two requests share a counter exactly when backend, model and status
  class are all equal, whatever bytes (quotes, backslashes, newlines, braces) a client puts into the
  model name; the same holds of the backend and the key labels.\<close>
theorem labels_injective:
  "(request_label b m s = request_label b' m' s' \<longleftrightarrow> b = b' \<and> m = m' \<and> s = s')
   \<and> (backend_label b = backend_label b' \<longleftrightarrow> b = b') \<and> (key_label k = key_label k' \<longleftrightarrow> k = k')"
  by (simp add: label_injects)

section \<open>Well-formed metrics\<close>

definition wf_family :: "labeled_counters \<Rightarrow> bool" where
  "wf_family t \<longleftrightarrow> distinct (map fst t) \<and> (\<forall>k \<in> fst ` set t. \<exists>ls. label_set ls \<and> k = format_labels ls)"

definition wf_metrics :: "metrics \<Rightarrow> bool" where
  "wf_metrics m \<longleftrightarrow> wf_family (me_requests m) \<and> wf_family (me_tokens m) \<and>
     wf_family (me_upstream_errors m) \<and> wf_family (me_rate_limit_rejections m) \<and>
     wf_family (me_budget_rejections m)"

lemma wf_family_add: "wf_family t \<Longrightarrow> label_set ls \<Longrightarrow> wf_family (counters_add (format_labels ls) n t)"
  by (auto simp: wf_family_def distinct_add keys_add)

lemma wf_metrics_new: "wf_metrics metrics_new"
  by (simp add: wf_metrics_def metrics_new_def wf_family_def)

lemma record_tokens_families:
  "me_tokens (record_tokens key u m) =
     counters_add (token_label key ''total'') (us_total u)
       (counters_add (token_label key ''completion'') (us_completion u)
         (counters_add (token_label key ''prompt'') (us_prompt u) (me_tokens m)))"
  by (simp add: record_tokens_def usage_kinds_def)

lemma wf_metrics_record:
  assumes "wf_metrics m"
  shows "wf_metrics (record_request b md s m)" "wf_metrics (record_tokens key u m)"
    "wf_metrics (record_upstream_error b m)" "wf_metrics (record_rate_limit_rejection key m)"
    "wf_metrics (record_budget_rejection key m)"
proof -
  show "wf_metrics (record_tokens key u m)"
    using assms
    by (simp add: wf_metrics_def record_tokens_families wf_family_add token_label_is_set
        usage_kinds_plain label_sets) (simp add: record_tokens_def)
qed (use assms in \<open>simp_all add: wf_metrics_def wf_family_add counters_inc_add labels_are_sets label_sets
      record_request_def record_upstream_error_def record_rate_limit_rejection_def record_budget_rejection_def\<close>)

section \<open>The exposition as a whole\<close>

lemma text_lines_line:
  assumes "newline \<notin> set l"
  shows "text_lines (l @ newline # rest) = l # text_lines rest"
proof -
  have "lines_acc acc (l @ newline # rest) = (rev acc @ l) # lines_acc [] rest" for acc
    using assms by (induction l arbitrary: acc) auto
  then show ?thesis by (simp add: text_lines_def)
qed

lemma read_exposition_line:
  "newline \<notin> set l \<Longrightarrow> read_exposition (l @ newline # rest) =
     (if is_comment l then read_exposition rest else read_sample l # read_exposition rest)"
  by (simp add: read_exposition_def text_lines_line)

lemma show_nat_digits: "c \<in> set (show_nat n) \<Longrightarrow> \<exists>d<10. c = digit_char d"
proof (induction n rule: show_nat.induct)
  case (1 n)
  then show ?case
    by (subst (asm) (2) show_nat.simps) (auto split: if_splits intro: exI[of _ "n mod 10"])
qed

lemma newline_show_nat: "newline \<notin> set (show_nat n)"
proof
  assume "newline \<in> set (show_nat n)"
  then obtain d :: nat where "d < 10" "newline = digit_char d" using show_nat_digits by blast
  then have "of_char newline = 48 + d" by (simp add: digit_char_def)
  then show False by simp
qed

definition family_name :: "string \<Rightarrow> bool" where
  "family_name name \<longleftrightarrow> \<not> is_comment name \<and> CHR ''{'' \<notin> set name \<and> newline \<notin> set name"

lemma read_sample_format:
  assumes "family_name name" and "label_set ls"
  shows "read_sample (name @ format_labels ls @ '' '' @ show_nat n) = Some (name, ls, n)"
  using assms read_labels_format[of ls "'' '' @ show_nat n"]
  by (simp add: read_sample_def format_labels_def family_name_def takeWhile_name read_nat_show_nat)

definition labels_of :: "string \<Rightarrow> (string \<times> string) list" where
  "labels_of k = fst (the (read_labels (tl k)))"

lemma labels_of_format: "label_set ls \<Longrightarrow> labels_of (format_labels ls) = ls"
  using read_labels_format[of ls "[]"] by (simp add: labels_of_def format_labels_def)

lemma read_samples:
  assumes "family_name name" and "\<forall>k \<in> fst ` set ps. \<exists>ls. label_set ls \<and> k = format_labels ls"
  shows "read_exposition
      (concat (map (\<lambda>(labels, v). name @ labels @ '' '' @ show_nat (unat v) @ [newline]) ps) @ rest) =
    map (\<lambda>(k, v). Some (name, labels_of k, unat v)) ps @ read_exposition rest"
  using assms(2)
proof (induction ps)
  case (Cons p ps)
  obtain k v where p: "p = (k, v)" by (cases p)
  then obtain ls where ls: "label_set ls" "k = format_labels ls" using Cons.prems by auto
  let ?l = "name @ format_labels ls @ '' '' @ show_nat (unat v)"
  have "newline \<notin> set ?l" "\<not> is_comment ?l"
    using assms(1) ls(1) newline_format newline_show_nat
    by (simp_all add: family_name_def) (auto simp: is_comment_def split: list.splits)
  with read_exposition_line[of ?l] read_sample_format[OF assms(1) ls(1)] Cons ls(1)
  show ?case by (simp add: p ls(2) labels_of_format)
qed simp

lemma read_family:
  assumes "family_name name" and "wf_family t" and "newline \<notin> set help" "newline \<notin> set ty"
  shows "read_exposition (write_family name ty help (labeled_snapshot t) @ rest) =
    map (\<lambda>(k, v). Some (name, labels_of k, unat v)) (labeled_snapshot t) @ read_exposition rest"
proof -
  have keys: "\<forall>k \<in> fst ` set (labeled_snapshot t). \<exists>ls. label_set ls \<and> k = format_labels ls"
    using assms(2) by (simp add: wf_family_def labeled_snapshot_def)
  have nl: "newline \<notin> set (''# HELP '' @ name @ '' '' @ help)" "newline \<notin> set (''# TYPE '' @ name @ '' '' @ ty)"
    using assms by (simp_all add: family_name_def)
  show ?thesis
    using read_samples[OF assms(1) keys] read_exposition_line[OF nl(1)] read_exposition_line[OF nl(2)]
    by (simp add: write_family_def is_comment_def)
qed

definition family_samples :: "string \<Rightarrow> labeled_counters \<Rightarrow> sample option list" where
  "family_samples name t = map (\<lambda>(k, v). Some (name, labels_of k, unat v)) (labeled_snapshot t)"

lemma read_render:
  assumes "wf_metrics m"
  shows "read_exposition (render m) =
    family_samples ''patchbay_requests_total'' (me_requests m) @
    family_samples ''patchbay_tokens_total'' (me_tokens m) @
    family_samples ''patchbay_upstream_errors_total'' (me_upstream_errors m) @
    family_samples ''patchbay_rate_limit_rejections_total'' (me_rate_limit_rejections m) @
    family_samples ''patchbay_budget_rejections_total'' (me_budget_rejections m)"
proof -
  have e: "read_exposition [] = []" by (simp add: read_exposition_def text_lines_def)
  have last: "read_exposition (write_family n ty h (labeled_snapshot t)) =
      map (\<lambda>(k, v). Some (n, labels_of k, unat v)) (labeled_snapshot t)"
    if "family_name n" "wf_family t" "newline \<notin> set h" "newline \<notin> set ty" for n t h ty
    using read_family[OF that, of "[]"] by (simp add: e)
  show ?thesis
    using assms
    by (simp add: render_def read_family last wf_metrics_def family_samples_def family_name_def is_comment_def)
qed

lemma family_samples_iff:
  assumes "wf_family t"
  shows "Some (name', ls, n) \<in> set (family_samples name t) \<longleftrightarrow>
    name' = name \<and> label_set ls \<and> map_option unat (map_of t (format_labels ls)) = Some n"
proof -
  have d: "distinct (map fst t)" and k: "\<And>k v. (k, v) \<in> set t \<Longrightarrow> \<exists>ls. label_set ls \<and> k = format_labels ls"
    using assms by (force simp: wf_family_def)+
  show ?thesis
  proof
    assume "Some (name', ls, n) \<in> set (family_samples name t)"
    then obtain k v where kv: "(k, v) \<in> set t" "name' = name" "ls = labels_of k" "n = unat v"
      by (auto simp: family_samples_def labeled_snapshot_def)
    then obtain ls0 where "label_set ls0" "k = format_labels ls0" using k by blast
    with kv show "name' = name \<and> label_set ls \<and> map_option unat (map_of t (format_labels ls)) = Some n"
      by (simp add: labels_of_format map_of_is_SomeI[OF d])
  next
    assume a: "name' = name \<and> label_set ls \<and> map_option unat (map_of t (format_labels ls)) = Some n"
    then obtain v where "(format_labels ls, v) \<in> set t" "n = unat v" by (auto dest: map_of_SomeD)
    with a show "Some (name', ls, n) \<in> set (family_samples name t)"
      by (force simp: family_samples_def labeled_snapshot_def labels_of_format)
  qed
qed

section \<open>What the endpoint shows after any history\<close>

datatype metrics_event =
    RequestDone string string string
  | TokensUsed string usage
  | UpstreamFailed string
  | RateLimited string
  | BudgetRejected string

fun apply_metrics_event :: "metrics_event \<Rightarrow> metrics \<Rightarrow> metrics" where
  "apply_metrics_event (RequestDone b m s) = record_request b m s"
| "apply_metrics_event (TokensUsed k u) = record_tokens k u"
| "apply_metrics_event (UpstreamFailed b) = record_upstream_error b"
| "apply_metrics_event (RateLimited k) = record_rate_limit_rejection k"
| "apply_metrics_event (BudgetRejected k) = record_budget_rejection k"

definition metrics_after :: "metrics_event list \<Rightarrow> metrics" where
  "metrics_after es = fold apply_metrics_event es metrics_new"

lemma metrics_after_simps [simp]:
  "metrics_after [] = metrics_new"
  "metrics_after (es @ [e]) = apply_metrics_event e (metrics_after es)"
  by (simp_all add: metrics_after_def)

lemma wf_metrics_after: "wf_metrics (metrics_after es)"
proof (induction es rule: rev_induct)
  case (snoc e es)
  then show ?case by (cases e) (simp_all add: wf_metrics_record)
qed (simp add: wf_metrics_new)

lemma map_of_add: "map_of (counters_add k n t) k' =
    (if k' = k then Some (counter_value t k + n) else map_of t k')"
  by (simp add: counters_add_def split_beta update_conv' table_simps counter_value_def)

lemma record_frames [simp]:
  "me_requests (record_tokens k u m) = me_requests m"
  "me_requests (record_upstream_error b m) = me_requests m"
  "me_requests (record_rate_limit_rejection k m) = me_requests m"
  "me_requests (record_budget_rejection k m) = me_requests m"
  "me_requests (record_request b md s m) = counters_inc (request_label b md s) (me_requests m)"
  "me_tokens (record_request b md s m) = me_tokens m"
  "me_tokens (record_upstream_error b m) = me_tokens m"
  "me_tokens (record_rate_limit_rejection k m) = me_tokens m"
  "me_tokens (record_budget_rejection k m) = me_tokens m"
  by (simp_all add: record_tokens_def record_request_def record_upstream_error_def
      record_rate_limit_rejection_def record_budget_rejection_def)

definition request_count :: "string \<Rightarrow> string \<Rightarrow> string \<Rightarrow> metrics_event list \<Rightarrow> nat" where
  "request_count b m s es = length (filter (\<lambda>e. e = RequestDone b m s) es)"

lemma requests_after:
  "map_of (me_requests (metrics_after es)) (request_label b m s) =
     (if request_count b m s es = 0 then None else Some (of_nat (request_count b m s es)))"
proof (induction es rule: rev_induct)
  case (snoc e es)
  then show ?case
    by (cases e) (auto simp: counters_inc_add map_of_add label_injects request_count_def counter_value_def
        add.commute split: option.split)
qed (simp add: metrics_new_def request_count_def)

text \<open>The usages recorded under a key, and their sum in one dimension.\<close>

definition token_usages :: "string \<Rightarrow> metrics_event list \<Rightarrow> usage list" where
  "token_usages key es = concat (map (\<lambda>e. case e of TokensUsed k u \<Rightarrow> if k = key then [u] else [] | _ \<Rightarrow> []) es)"

definition usage_dimension :: "string \<Rightarrow> usage \<Rightarrow> u64" where
  "usage_dimension kind u =
     (if kind = ''prompt'' then us_prompt u else if kind = ''completion'' then us_completion u else us_total u)"

definition token_kinds :: "string list" where
  "token_kinds = [''prompt'', ''completion'', ''total'']"

lemma token_kinds_cases:
  assumes "kind \<in> set token_kinds"
  obtains "kind = ''prompt''" | "kind = ''completion''" | "kind = ''total''"
  using assms by (auto simp: token_kinds_def)

lemma record_tokens_lookup:
  assumes "kind \<in> set token_kinds"
  shows "map_of (me_tokens (record_tokens k u m)) (token_label key kind) =
     (if key = k then Some (counter_value (me_tokens m) (token_label key kind) + usage_dimension kind u)
      else map_of (me_tokens m) (token_label key kind))"
  using assms
  by (cases rule: token_kinds_cases)
    (simp_all add: record_tokens_families map_of_add token_label_inject usage_kinds_plain usage_dimension_def)

lemma token_usages_snoc:
  "token_usages key [] = []"
  "token_usages key (es @ [e]) =
     (case e of TokensUsed k u \<Rightarrow> if k = key then token_usages key es @ [u] else token_usages key es
      | _ \<Rightarrow> token_usages key es)"
  by (simp_all add: token_usages_def split: metrics_event.split)

lemma tokens_after:
  assumes "kind \<in> set token_kinds"
  shows "map_of (me_tokens (metrics_after es)) (token_label key kind) =
     (if token_usages key es = [] then None
      else Some (of_nat (\<Sum>u \<leftarrow> token_usages key es. unat (usage_dimension kind u))))"
proof (induction es rule: rev_induct)
  case (snoc e es)
  then show ?case
    by (cases e) (auto simp: record_tokens_lookup[OF assms] token_usages_snoc counter_value_def)
qed (simp add: metrics_new_def token_usages_snoc)

lemma family_names:
  "family_name ''patchbay_requests_total''" "family_name ''patchbay_tokens_total''"
  by (simp_all add: family_name_def is_comment_def)

lemma exposition_family:
  assumes "wf_metrics m"
  shows "Some (''patchbay_requests_total'', ls, n) \<in> set (read_exposition (render m)) \<longleftrightarrow>
      label_set ls \<and> map_option unat (map_of (me_requests m) (format_labels ls)) = Some n"
    and "Some (''patchbay_tokens_total'', ls, n) \<in> set (read_exposition (render m)) \<longleftrightarrow>
      label_set ls \<and> map_option unat (map_of (me_tokens m) (format_labels ls)) = Some n"
    and "None \<notin> set (read_exposition (render m))"
  using assms
  by (simp_all add: read_render wf_metrics_def family_samples_iff) (auto simp: family_samples_def)

text \<open>C30: after any history of recorded events every sample line of the rendered page parses by the
  rules of the text format, and the page shows a request sample for a backend, model and status
  exactly when such a request was recorded, with the number of those requests (modulo \<open>2 ^ 64\<close>).\<close>
theorem exposition_requests:
  "None \<notin> set (read_exposition (render (metrics_after es)))
   \<and> (Some (''patchbay_requests_total'', [(''backend'', b), (''model'', m), (''status'', s)], n)
        \<in> set (read_exposition (render (metrics_after es)))
      \<longleftrightarrow> request_count b m s es \<noteq> 0 \<and> n = request_count b m s es mod 2 ^ 64)"
  using exposition_family[OF wf_metrics_after] requests_after[of es b m s]
  by (auto simp: label_sets labels_are_sets unat_of_nat)

text \<open>The page shows a token sample of a key exactly when usage was recorded for that key, and the
  prompt, completion and total samples are the sums of those usages (modulo \<open>2 ^ 64\<close>).\<close>
theorem exposition_tokens:
  assumes "kind \<in> set token_kinds"
  shows "Some (''patchbay_tokens_total'', [(''key'', key), (''kind'', kind)], n)
        \<in> set (read_exposition (render (metrics_after es)))
      \<longleftrightarrow> token_usages key es \<noteq> []
        \<and> n = (\<Sum>u \<leftarrow> token_usages key es. unat (usage_dimension kind u)) mod 2 ^ 64"
proof -
  have "escape kind = kind" using assms by (auto simp: token_kinds_def usage_kinds_plain)
  from token_label_is_set[OF this, of key] tokens_after[OF assms, of es key] show ?thesis
    using exposition_family(2)[OF wf_metrics_after] by (auto simp: label_sets unat_of_nat)
qed

lemma exposition_tokens_witness:
  "Some (''patchbay_tokens_total'', [(''key'', ''a''), (''kind'', ''total'')], 12) \<in> set (read_exposition
     (render (metrics_after [TokensUsed ''a'' \<lparr>us_prompt = 3, us_completion = 4, us_total = 7\<rparr>,
       RateLimited ''b'', TokensUsed ''a'' \<lparr>us_prompt = 2, us_completion = 3, us_total = 5\<rparr>])))"
  by (subst exposition_tokens) (simp_all add: token_kinds_def token_usages_def usage_dimension_def)

section \<open>Independence of the hash order\<close>

lemma labeled_snapshot_order:
  assumes "distinct (map fst t)" and "distinct (map fst t')" and "map_of t = map_of t'"
  shows "labeled_snapshot t = labeled_snapshot t'"
proof -
  have "set t = set t'" using assms by (metis map_of_inject_set)
  moreover have "distinct t" "distinct t'" using assms distinct_map by auto
  ultimately have "mset t = mset t'" by (metis set_eq_iff_mset_eq_distinct)
  moreover have "inj_on fst (set t)" using assms(1) by (simp add: distinct_map)
  ultimately show ?thesis
    unfolding labeled_snapshot_def
    by (intro sort_key_inj_key_eq) auto
qed

text \<open>The rendered page is a function of the counters: two handles whose families hold the same
  counters render byte for byte the same, in whatever order their hash maps iterate.\<close>
theorem render_order_independent:
  assumes "wf_metrics m" and "wf_metrics m'"
    and "map_of (me_requests m) = map_of (me_requests m')"
    and "map_of (me_tokens m) = map_of (me_tokens m')"
    and "map_of (me_upstream_errors m) = map_of (me_upstream_errors m')"
    and "map_of (me_rate_limit_rejections m) = map_of (me_rate_limit_rejections m')"
    and "map_of (me_budget_rejections m) = map_of (me_budget_rejections m')"
  shows "render m = render m'"
  using assms labeled_snapshot_order unfolding wf_metrics_def wf_family_def render_def
  by (metis (no_types, lifting))

lemma render_order_independent_witness:
  "render (record_upstream_error ''a'' (record_upstream_error ''b'' metrics_new)) =
   render (record_upstream_error ''b'' (record_upstream_error ''a'' metrics_new))"
proof (rule render_order_independent)
  let ?ab = "record_upstream_error ''a'' (record_upstream_error ''b'' metrics_new)"
    and ?ba = "record_upstream_error ''b'' (record_upstream_error ''a'' metrics_new)"
  show "wf_metrics ?ab" "wf_metrics ?ba" by (simp_all add: wf_metrics_record wf_metrics_new)
qed (simp_all add: record_upstream_error_def metrics_new_def
      counters_inc_add map_of_add label_injects fun_eq_iff counter_value_def)

end
