(* ===== verification/Http.thy ===== *)
theory Http
  imports Prelude
begin

text \<open>
  The HTTP vocabulary of the handlers: status codes, JSON values as the \<open>json!\<close> macro builds
  them, and responses.  What the HTTP library does with a response afterwards is not modelled.
\<close>

datatype json =
    JNull
  | JBool bool
  | JNumber nat
  | JString string
  | JArray "json list"
  | JObject "(string \<times> json) list"

text \<open>\<open>Value::get\<close> with a string index: only objects have members.\<close>

fun json_get :: "string \<Rightarrow> json \<Rightarrow> json option" where
  "json_get k (JObject ms) = map_of ms k"
| "json_get k _ = None"

text \<open>A body is a JSON document, bytes, nothing, or a stream that is still to be produced.\<close>

datatype 's body = JsonBody json | BytesBody bytes | EmptyBody | StreamBody 's

record 's response =
  rsp_status :: u16
  rsp_headers :: "(string \<times> bytes) list"
  rsp_body :: "'s body"

abbreviation "status_ok \<equiv> (200 :: u16)"
abbreviation "status_bad_request \<equiv> (400 :: u16)"
abbreviation "status_unauthorized \<equiv> (401 :: u16)"
abbreviation "status_too_many_requests \<equiv> (429 :: u16)"
abbreviation "status_internal_server_error \<equiv> (500 :: u16)"
abbreviation "status_bad_gateway \<equiv> (502 :: u16)"

end
