(* ===== verification/Auth.thy ===== *)
theory Auth
  imports Config Http "HOL-Library.AList"
begin

text \<open>
  \<open>src/auth.rs\<close>: the table from bearer tokens to identities and the extractor that turns the
  \<open>Authorization\<close> header into an identity.  The hash map is an association list with distinct
  keys.  Decoding a header value into text is the HTTP library's: the argument \<open>to_str\<close>.
\<close>

record key_identity =
  ki_name :: string
  ki_enforce_private :: bool

type_synonym key_store = "(string \<times> key_identity) list"

definition identity_of :: "virtual_key \<Rightarrow> key_identity" where
  "identity_of vk = \<lparr>ki_name = vk_name vk, ki_enforce_private = vk_enforce_private vk\<rparr>"

text \<open>Collecting into a hash map: a later entry replaces an earlier one with the same token.\<close>

definition from_virtual_keys :: "virtual_key list \<Rightarrow> key_store" where
  "from_virtual_keys keys = fold (\<lambda>vk. AList.update (expose (vk_key vk)) (identity_of vk)) keys []"

definition is_open :: "key_store \<Rightarrow> bool" where
  "is_open store = (store = [])"

definition authenticate :: "key_store \<Rightarrow> string \<Rightarrow> key_identity option" where
  "authenticate store token = map_of store token"

datatype auth_error = AuthError string

fun auth_error_response :: "auth_error \<Rightarrow> 's response" where
  "auth_error_response (AuthError msg) =
     \<lparr>rsp_status = status_unauthorized, rsp_headers = [],
      rsp_body = JsonBody (JObject [(''error'', JObject
        [(''message'', JString msg), (''type'', JString ''invalid_request_error''),
         (''code'', JString ''invalid_api_key'')])])\<rparr>"

definition anonymous :: key_identity where
  "anonymous = \<lparr>ki_name = ''anonymous'', ki_enforce_private = False\<rparr>"

definition from_request_parts ::
  "(bytes \<Rightarrow> string option) \<Rightarrow> key_store \<Rightarrow> bytes option \<Rightarrow> auth_error + key_identity" where
  "from_request_parts to_str store authorization =
     (if is_open store then Inr anonymous
      else
        and_then (ok_or (Option.bind authorization to_str) (AuthError ''missing Authorization header''))
        (\<lambda>header.
        and_then (ok_or (strip_prefix ''Bearer '' header)
          (AuthError ''Authorization header must use the Bearer scheme''))
        (\<lambda>token. ok_or (authenticate store token) (AuthError ''invalid API key''))))"

section \<open>The store\<close>

lemma update_not_Nil: "AList.update k v xs \<noteq> []"
  by (cases xs) auto

lemma from_virtual_keys_snoc:
  "from_virtual_keys (vks @ [vk]) = AList.update (expose (vk_key vk)) (identity_of vk) (from_virtual_keys vks)"
  by (simp add: from_virtual_keys_def)

lemma from_virtual_keys_Nil_iff: "from_virtual_keys vks = [] \<longleftrightarrow> vks = []"
  by (cases vks rule: rev_cases) (simp_all add: from_virtual_keys_snoc update_not_Nil from_virtual_keys_def)

lemma authenticate_from_virtual_keys:
  "authenticate (from_virtual_keys vks) token =
     map_option identity_of (find (\<lambda>vk. expose (vk_key vk) = token) (rev vks))"
proof (induction vks rule: rev_induct)
  case (snoc vk vks)
  then show ?case by (simp add: authenticate_def from_virtual_keys_snoc update_conv')
qed (simp add: authenticate_def from_virtual_keys_def)

lemma authenticate_distinct:
  assumes "distinct (map (expose \<circ> vk_key) vks)"
  shows "authenticate (from_virtual_keys vks) token = Some who \<longleftrightarrow>
    (\<exists>vk \<in> set vks. expose (vk_key vk) = token \<and> who = identity_of vk)"
proof -
  have inj: "vk = vk'" if "vk \<in> set vks" "vk' \<in> set vks" "expose (vk_key vk) = expose (vk_key vk')" for vk vk'
    using assms that by (auto simp: distinct_map inj_on_def)
  show ?thesis
  proof
    assume "authenticate (from_virtual_keys vks) token = Some who"
    then show "\<exists>vk \<in> set vks. expose (vk_key vk) = token \<and> who = identity_of vk"
      by (auto simp: authenticate_from_virtual_keys find_Some_iff) (metis nth_mem set_rev length_rev)
  next
    assume "\<exists>vk \<in> set vks. expose (vk_key vk) = token \<and> who = identity_of vk"
    then obtain vk where vk: "vk \<in> set vks" "expose (vk_key vk) = token" "who = identity_of vk" by blast
    then have "find (\<lambda>vk. expose (vk_key vk) = token) (rev vks) \<noteq> None" by (auto simp: find_None_iff)
    then obtain vk' where f: "find (\<lambda>vk. expose (vk_key vk) = token) (rev vks) = Some vk'" by blast
    then have "vk' \<in> set vks" "expose (vk_key vk') = token"
      by (auto simp: find_Some_iff) (metis nth_mem set_rev length_rev)
    with vk inj have "vk' = vk" by metis
    with f vk(3) show "authenticate (from_virtual_keys vks) token = Some who"
      by (simp add: authenticate_from_virtual_keys)
  qed
qed

section \<open>Properties\<close>

text \<open>C12: for the keys of a well-formed configuration, a request is accepted as \<open>who\<close> exactly when no
  key is configured and \<open>who\<close> is the anonymous, non-private identity, or its header is
  \<open>Bearer\<close> followed by the secret of a configured key and \<open>who\<close> carries that key's name and
  privacy flag.\<close>
theorem auth_accepts_exactly:
  assumes "wf_config cfg"
  shows "from_request_parts to_str (from_virtual_keys (cfg_virtual_keys cfg)) authorization = Inr who \<longleftrightarrow>
    (if cfg_virtual_keys cfg = [] then who = anonymous
     else \<exists>vk \<in> set (cfg_virtual_keys cfg). who = identity_of vk \<and>
        Option.bind authorization to_str = Some (''Bearer '' @ expose (vk_key vk)))"
proof -
  have d: "distinct (map (expose \<circ> vk_key) (cfg_virtual_keys cfg))"
    using assms by (simp add: wf_config_def)
  show ?thesis
    by (auto simp: from_request_parts_def is_open_def from_virtual_keys_Nil_iff result_simps
        authenticate_distinct[OF d])
qed

lemma auth_accepts_exactly_witness:
  "from_request_parts Some (from_virtual_keys (cfg_virtual_keys (resolved_config sample_env sample_raw ())))
     (Some ''Bearer secret-a'') = Inr \<lparr>ki_name = ''a'', ki_enforce_private = True\<rparr>"
  by (subst auth_accepts_exactly)
    (simp_all add: wf_resolved_config sample_raw_valid,
     simp add: resolved_config_def resolved_virtual_key_def sample_defs identity_of_def)

text \<open>The complete decision when keys are configured, for any table (duplicate secrets included):
  no readable header, a header that is not of the Bearer scheme (case and single space included) and an
  unknown token are rejected with their own messages, in this order; otherwise the last key
  configured with that token is the caller.\<close>
theorem auth_decision:
  assumes "vks \<noteq> []"
  shows "from_request_parts to_str (from_virtual_keys vks) authorization =
    (case Option.bind authorization to_str of
       None \<Rightarrow> Inl (AuthError ''missing Authorization header'')
     | Some h \<Rightarrow>
         if take 7 h \<noteq> ''Bearer '' then Inl (AuthError ''Authorization header must use the Bearer scheme'')
         else (case find (\<lambda>vk. expose (vk_key vk) = drop 7 h) (rev vks) of
                 None \<Rightarrow> Inl (AuthError ''invalid API key'')
               | Some vk \<Rightarrow> Inr (identity_of vk)))"
proof (cases "Option.bind authorization to_str")
  case None
  then show ?thesis
    using assms by (simp add: from_request_parts_def is_open_def from_virtual_keys_Nil_iff)
next
  case (Some h)
  have sp: "strip_prefix ''Bearer '' h = (if take 7 h = ''Bearer '' then Some (drop 7 h) else None)"
  proof (cases "strip_prefix ''Bearer '' h")
    case None
    then show ?thesis
      by (metis append_take_drop_id option.distinct(1) strip_prefix_eq_Some)
  qed auto
  show ?thesis
    using assms Some
    by (auto simp: from_request_parts_def is_open_def from_virtual_keys_Nil_iff sp
        authenticate_from_virtual_keys split: option.split)
qed

lemma auth_decision_witness:
  "from_request_parts Some (from_virtual_keys
      [\<lparr>vk_name = ''a'', vk_key = Secret ''s'', vk_enforce_private = False\<rparr>]) (Some ''bearer s'') =
     (Inl (AuthError ''Authorization header must use the Bearer scheme'') :: auth_error + key_identity)"
  by (subst auth_decision) simp_all

end
