(* ===== verification/Relay.thy ===== *)
theory Relay
  imports Event_Stream
begin

text \<open>
  The relay stream of \<open>src/upstream.rs\<close>: \<open>SseRelay\<close> as a state machine.  A poll takes what
  the upstream stream answers and the clock; the summary channel is the list of what was sent on
  it.  Instants and durations are nanoseconds; whether the sleep timer with a given deadline has
  fired is the timer library's answer \<open>timer deadline now\<close>.
\<close>

section \<open>State and operations\<close>

datatype relay_outcome =
    Completed
  | UpstreamFailure string
  | Stalled
  | ClientDisconnected

record relay_summary =
  sm_outcome :: relay_outcome
  sm_usage :: "usage option"
  sm_saw_done :: bool
  sm_bytes_relayed :: u64

datatype relay_error = Upstream string | StallTimeout nat

text \<open>
  \<open>ry_reporter\<close> says whether the sending half of the channel is still held, \<open>ry_sent\<close> is
  what the receiving half gets.
\<close>

record relay =
  ry_scanner :: scanner
  ry_stall :: nat
  ry_stall_timeout :: nat
  ry_reporter :: bool
  ry_sent :: "relay_summary list"
  ry_bytes_relayed :: u64
  ry_finished :: bool

definition relay_new :: "nat \<Rightarrow> nat \<Rightarrow> relay" where
  "relay_new stall_timeout now =
     \<lparr>ry_scanner = new_scanner, ry_stall = now + stall_timeout, ry_stall_timeout = stall_timeout,
      ry_reporter = True, ry_sent = [], ry_bytes_relayed = 0, ry_finished = False\<rparr>"

definition report :: "relay_outcome \<Rightarrow> relay \<Rightarrow> relay" where
  "report outcome r =
     (if ry_reporter r
      then r\<lparr>ry_reporter := False,
             ry_sent := ry_sent r @
               [\<lparr>sm_outcome = outcome, sm_usage = sc_last_usage (ry_scanner r),
                 sm_saw_done = sc_saw_done (ry_scanner r), sm_bytes_relayed = ry_bytes_relayed r\<rparr>]\<rparr>
      else r)"

text \<open>The answers of the upstream stream, and of the relay, to a poll.\<close>

datatype upstream_poll = UpChunk bytes | UpError string | UpEnd | UpPending

datatype relay_poll = ReadyChunk bytes | ReadyError relay_error | ReadyEnd | Pending

definition poll_next ::
  "(bytes \<Rightarrow> usage option option) \<Rightarrow> (nat \<Rightarrow> nat \<Rightarrow> bool) \<Rightarrow> upstream_poll \<Rightarrow> nat \<Rightarrow> relay
     \<Rightarrow> relay_poll \<times> relay" where
  "poll_next parse_env timer upstream now r =
     (if ry_finished r then (ReadyEnd, r)
      else case upstream of
        UpChunk chunk \<Rightarrow>
          (ReadyChunk chunk,
           r\<lparr>ry_scanner := feed parse_env chunk (ry_scanner r),
             ry_bytes_relayed := ry_bytes_relayed r + of_nat (length chunk),
             ry_stall := now + ry_stall_timeout r\<rparr>)
      | UpError msg \<Rightarrow>
          (ReadyError (Upstream msg), report (UpstreamFailure msg) (r\<lparr>ry_finished := True\<rparr>))
      | UpEnd \<Rightarrow> (ReadyEnd, report Completed (r\<lparr>ry_finished := True\<rparr>))
      | UpPending \<Rightarrow>
          if timer (ry_stall r) now
          then (ReadyError (StallTimeout (ry_stall_timeout r)), report Stalled (r\<lparr>ry_finished := True\<rparr>))
          else (Pending, r))"

definition relay_drop :: "relay \<Rightarrow> relay" where
  "relay_drop r = report ClientDisconnected r"

text \<open>A client that polls: the upstream's answers with their times, and the relay's answers.\<close>

fun relay_run ::
  "(bytes \<Rightarrow> usage option option) \<Rightarrow> (nat \<Rightarrow> nat \<Rightarrow> bool) \<Rightarrow> (upstream_poll \<times> nat) list \<Rightarrow> relay
     \<Rightarrow> relay_poll list \<times> relay" where
  "relay_run parse_env timer [] r = ([], r)"
| "relay_run parse_env timer ((u, now) # us) r =
     (let (out, r') = poll_next parse_env timer u now r; (outs, r'') = relay_run parse_env timer us r'
      in (out # outs, r''))"

section \<open>What a relay promises\<close>

text \<open>
  The life of a stream, stated without the relay: it goes on until the upstream ends, fails, or
  is pending when the timer of the last chunk has fired.  \<open>stream_life\<close> gives the chunks that
  came through and how the stream ended, if it did.
\<close>

fun stream_life ::
  "(nat \<Rightarrow> nat \<Rightarrow> bool) \<Rightarrow> nat \<Rightarrow> nat \<Rightarrow> (upstream_poll \<times> nat) list \<Rightarrow> bytes list \<times> relay_outcome option" where
  "stream_life timer timeout deadline [] = ([], None)"
| "stream_life timer timeout deadline ((UpChunk c, now) # us) =
     apfst ((#) c) (stream_life timer timeout (now + timeout) us)"
| "stream_life timer timeout deadline ((UpError msg, now) # us) = ([], Some (UpstreamFailure msg))"
| "stream_life timer timeout deadline ((UpEnd, now) # us) = ([], Some Completed)"
| "stream_life timer timeout deadline ((UpPending, now) # us) =
     (if timer deadline now then ([], Some Stalled) else stream_life timer timeout deadline us)"

definition final_outcome :: "relay_outcome option \<Rightarrow> relay_outcome" where
  "final_outcome oc = (case oc of None \<Rightarrow> ClientDisconnected | Some x \<Rightarrow> x)"

definition summary_of :: "(bytes \<Rightarrow> usage option option) \<Rightarrow> bytes list \<Rightarrow> relay_outcome \<Rightarrow> relay_summary" where
  "summary_of parse_env chunks outcome =
     (let s = feed_all parse_env chunks new_scanner
      in \<lparr>sm_outcome = outcome, sm_usage = sc_last_usage s, sm_saw_done = sc_saw_done s,
          sm_bytes_relayed = of_nat (length (concat chunks))\<rparr>)"

fun delivered :: "relay_poll list \<Rightarrow> bytes list" where
  "delivered [] = []"
| "delivered (ReadyChunk c # os) = c # delivered os"
| "delivered (_ # os) = delivered os"

definition relay_live :: "relay \<Rightarrow> bool" where
  "relay_live r \<longleftrightarrow> \<not> ry_finished r \<and> ry_reporter r \<and> ry_sent r = []"

lemma relay_new_live: "relay_live (relay_new t now)"
  by (simp add: relay_live_def relay_new_def)

lemma relay_run_finished:
  "ry_finished r \<Longrightarrow> relay_run p timer us r = (map (\<lambda>_. ReadyEnd) us, r)"
  by (induction us) (auto simp: poll_next_def)

lemma report_fields [simp]:
  "ry_scanner (report oc r) = ry_scanner r" "ry_bytes_relayed (report oc r) = ry_bytes_relayed r"
  "ry_stall_timeout (report oc r) = ry_stall_timeout r" "ry_finished (report oc r) = ry_finished r"
  "\<not> ry_reporter (report oc r)"
  by (simp_all add: report_def)

lemma report_live: "relay_live r \<Longrightarrow> ry_sent (report oc (r\<lparr>ry_finished := x\<rparr>)) =
    [\<lparr>sm_outcome = oc, sm_usage = sc_last_usage (ry_scanner r), sm_saw_done = sc_saw_done (ry_scanner r),
      sm_bytes_relayed = ry_bytes_relayed r\<rparr>]"
  by (simp add: report_def relay_live_def)

lemma delivered_ends [simp]: "delivered (map (\<lambda>_. ReadyEnd) us) = []"
  by (induction us) auto

text \<open>The central lemma: a live relay follows the life of its stream.\<close>

definition relay_after ::
  "(bytes \<Rightarrow> usage option option) \<Rightarrow> relay \<Rightarrow> bytes list \<Rightarrow> relay_outcome option \<Rightarrow> relay \<Rightarrow> bool" where
  "relay_after p r chunks oc r' \<longleftrightarrow>
     ry_scanner r' = feed_all p chunks (ry_scanner r) \<and>
     ry_bytes_relayed r' = ry_bytes_relayed r + of_nat (length (concat chunks)) \<and>
     (ry_finished r' \<longleftrightarrow> oc \<noteq> None) \<and>
     ry_sent (relay_drop r') =
       [\<lparr>sm_outcome = final_outcome oc, sm_usage = sc_last_usage (ry_scanner r'),
         sm_saw_done = sc_saw_done (ry_scanner r'), sm_bytes_relayed = ry_bytes_relayed r'\<rparr>]"

lemma relay_drop_live:
  assumes "relay_live r"
  shows "relay_after p r [] None r"
  using assms by (simp add: relay_after_def relay_drop_def report_def relay_live_def final_outcome_def)

lemma relay_drop_reported:
  assumes "relay_live r"
  shows "relay_after p r [] (Some oc) (report oc (r\<lparr>ry_finished := True\<rparr>))"
  using assms by (simp add: relay_after_def relay_drop_def report_def relay_live_def final_outcome_def)

lemma relay_run_life:
  assumes "relay_live r"
  shows "case relay_run p timer us r of (outs, r') \<Rightarrow>
    case stream_life timer (ry_stall_timeout r) (ry_stall r) us of (chunks, oc) \<Rightarrow>
      delivered outs = chunks \<and> relay_after p r chunks oc r'"
  using assms
proof (induction us arbitrary: r)
  case Nil
  then show ?case by (simp add: relay_drop_live)
next
  case (Cons u us)
  obtain up now where u: "u = (up, now)" by (cases u)
  have nf: "\<not> ry_finished r" using Cons.prems by (simp add: relay_live_def)
  have stop: "relay_run p timer us (report oc (r\<lparr>ry_finished := True\<rparr>)) =
      (map (\<lambda>_. ReadyEnd) us, report oc (r\<lparr>ry_finished := True\<rparr>))" for oc
    by (rule relay_run_finished) simp
  show ?case
  proof (cases up)
    case (UpChunk c)
    let ?r = "r\<lparr>ry_scanner := feed p c (ry_scanner r),
      ry_bytes_relayed := ry_bytes_relayed r + of_nat (length c), ry_stall := now + ry_stall_timeout r\<rparr>"
    have "relay_live ?r" using Cons.prems by (simp add: relay_live_def)
    from Cons.IH[OF this] show ?thesis
      by (auto simp: u UpChunk nf poll_next_def relay_after_def add.assoc split: prod.splits)
  next
    case UpPending
    show ?thesis
      using Cons.IH[OF Cons.prems] relay_drop_reported[OF Cons.prems]
      by (auto simp: u UpPending nf poll_next_def stop split: prod.splits)
  qed (use relay_drop_reported[OF Cons.prems] in \<open>simp_all add: u nf poll_next_def stop\<close>)
qed

section \<open>Properties\<close>

definition relay_session ::
  "(bytes \<Rightarrow> usage option option) \<Rightarrow> (nat \<Rightarrow> nat \<Rightarrow> bool) \<Rightarrow> nat \<Rightarrow> nat \<Rightarrow> (upstream_poll \<times> nat) list
     \<Rightarrow> relay_poll list \<times> relay_summary list" where
  "relay_session p timer timeout start us =
     (case relay_run p timer us (relay_new timeout start) of (outs, r) \<Rightarrow> (outs, ry_sent (relay_drop r)))"

lemma relay_session_life:
  assumes "stream_life timer timeout (start + timeout) us = (chunks, oc)"
  shows "delivered (fst (relay_session p timer timeout start us)) = chunks
    \<and> snd (relay_session p timer timeout start us) = [summary_of p chunks (final_outcome oc)]"
  using relay_run_life[OF relay_new_live[of timeout start], where p = p and timer = timer and us = us] assms
  by (auto simp: relay_session_def relay_after_def relay_new_def summary_of_def Let_def split: prod.splits)

text \<open>C4: exactly one summary per relay, however it is polled and whenever it is dropped; the summary
  says how the stream ended (dropping a live relay is a client disconnect) and carries what the
  scanner saw in, and the byte count of, exactly the chunks that were handed to the client.\<close>
theorem exactly_one_summary:
  "case relay_session p timer timeout start us of (outs, sent) \<Rightarrow>
     sent = [summary_of p (delivered outs)
       (final_outcome (snd (stream_life timer timeout (start + timeout) us)))]"
  using relay_session_life[of timer timeout start us "fst (stream_life timer timeout (start + timeout) us)"
    "snd (stream_life timer timeout (start + timeout) us)" p]
  by (auto split: prod.splits)

text \<open>C5: the relay is byte-faithful and transparent: the client gets the upstream's chunks, unchanged
  and in order, up to the first end, error or stall, whatever the chunks contain.\<close>
theorem relay_byte_faithful:
  "delivered (fst (relay_session p timer timeout start us)) =
     fst (stream_life timer timeout (start + timeout) us)"
  using relay_session_life[of timer timeout start us "fst (stream_life timer timeout (start + timeout) us)"
    "snd (stream_life timer timeout (start + timeout) us)" p]
  by simp

definition is_last :: "relay_poll \<Rightarrow> bool" where
  "is_last out = (case out of ReadyError e \<Rightarrow> True | ReadyEnd \<Rightarrow> True | _ \<Rightarrow> False)"

lemma poll_next_last:
  assumes "is_last (fst (poll_next p timer u now r))"
  shows "ry_finished (snd (poll_next p timer u now r))"
  using assms by (auto simp: poll_next_def is_last_def split: upstream_poll.splits if_splits)

text \<open>The relay is fused: after it has answered with an error or the end, every later poll answers
  the end, without looking at the upstream again.\<close>
theorem relay_fused:
  assumes "is_last (fst (poll_next p timer u now r))"
  shows "relay_run p timer us (snd (poll_next p timer u now r)) =
    (map (\<lambda>_. ReadyEnd) us, snd (poll_next p timer u now r))"
  using poll_next_last[OF assms] by (rule relay_run_finished)

lemma relay_fused_witness:
  "fst (relay_run (\<lambda>_. None) (\<le>) [(UpChunk ''late'', 9), (UpEnd, 10)]
     (snd (poll_next (\<lambda>_. None) (\<le>) (UpError ''reset'') 5 (relay_new 30 0)))) = [ReadyEnd, ReadyEnd]"
  by (subst relay_fused) (simp_all add: poll_next_def relay_new_def is_last_def)


text \<open>The time of the last chunk, or of the start.\<close>

fun last_activity :: "nat \<Rightarrow> (upstream_poll \<times> nat) list \<Rightarrow> nat" where
  "last_activity start [] = start"
| "last_activity start ((UpChunk c, now) # us) = last_activity now us"
| "last_activity start ((_, now) # us) = last_activity start us"

lemma stream_life_append:
  assumes "snd (stream_life timer timeout (start + timeout) us) = None"
  shows "stream_life timer timeout (start + timeout) (us @ vs) =
    apfst ((@) (fst (stream_life timer timeout (start + timeout) us)))
      (stream_life timer timeout (last_activity start us + timeout) vs)"
  using assms
proof (induction us arbitrary: start)
  case Nil
  then show ?case by (simp add: apfst_def map_prod_def split: prod.splits)
next
  case (Cons u us)
  obtain up now where u: "u = (up, now)" by (cases u)
  show ?case
  proof (cases up)
    case (UpChunk c)
    then show ?thesis using Cons.IH[of now] Cons.prems
      by (cases "stream_life timer timeout (last_activity now us + timeout) vs") (simp add: u)
  qed (use Cons in \<open>auto simp: u split: if_splits\<close>)
qed

lemma stalled_split:
  assumes "snd (stream_life timer timeout (start + timeout) us) = Some Stalled"
  shows "\<exists>pre now post. us = pre @ (UpPending, now) # post
    \<and> snd (stream_life timer timeout (start + timeout) pre) = None
    \<and> timer (last_activity start pre + timeout) now"
  using assms
proof (induction us arbitrary: start)
  case (Cons u us)
  obtain up now where u: "u = (up, now)" by (cases u)
  show ?case
  proof (cases up)
    case (UpChunk c)
    with Cons.prems have "snd (stream_life timer timeout (now + timeout) us) = Some Stalled" by (simp add: u)
    from Cons.IH[OF this] obtain pre t post where "us = pre @ (UpPending, t) # post"
      "snd (stream_life timer timeout (now + timeout) pre) = None" "timer (last_activity now pre + timeout) t"
      by blast
    then show ?thesis
      by (intro exI[of _ "u # pre"] exI[of _ t] exI[of _ post]) (simp add: u UpChunk)
  next
    case UpPending
    show ?thesis
    proof (cases "timer (start + timeout) now")
      case True
      then show ?thesis
        by (intro exI[of _ "[]"] exI[of _ now] exI[of _ us]) (simp add: u UpPending)
    next
      case False
      with Cons.prems Cons.IH[of start] UpPending obtain pre t post where "us = pre @ (UpPending, t) # post"
        "snd (stream_life timer timeout (start + timeout) pre) = None" "timer (last_activity start pre + timeout) t"
        by (auto simp: u)
      with False show ?thesis
        by (intro exI[of _ "u # pre"] exI[of _ t] exI[of _ post]) (simp add: u UpPending)
    qed
  qed (use Cons.prems u in auto)
qed simp

text \<open>C23: with a timer that fires at its deadline, the relay reports a stall exactly when, on a stream
  that has not ended, a poll finds nothing to read at least the stall timeout after the last chunk (or
  the start): a stream whose chunks keep coming is never cut, however long it runs.\<close>
theorem stall_exact:
  "map sm_outcome (snd (relay_session p (\<le>) timeout start us)) = [Stalled] \<longleftrightarrow>
     (\<exists>pre now post. us = pre @ (UpPending, now) # post
        \<and> snd (stream_life (\<le>) timeout (start + timeout) pre) = None
        \<and> last_activity start pre + timeout \<le> now)"
proof -
  have "map sm_outcome (snd (relay_session p (\<le>) timeout start us)) = [Stalled] \<longleftrightarrow>
      snd (stream_life (\<le>) timeout (start + timeout) us) = Some Stalled"
    using relay_session_life[of "(\<le>)" timeout start us "fst (stream_life (\<le>) timeout (start + timeout) us)"
      "snd (stream_life (\<le>) timeout (start + timeout) us)" p]
    by (auto simp: summary_of_def Let_def final_outcome_def split: option.splits)
  also have "\<dots> \<longleftrightarrow> (\<exists>pre now post. us = pre @ (UpPending, now) # post
        \<and> snd (stream_life (\<le>) timeout (start + timeout) pre) = None
        \<and> last_activity start pre + timeout \<le> now)"
    using stalled_split[of "(\<le>)" timeout start us]
    by (auto simp: stream_life_append)
  finally show ?thesis .
qed

text \<open>The scanner part of a summary, as a function of the delivered bytes alone.\<close>

lemma summary_usage:
  assumes "\<not> sc_overflowed (feed_all p chunks new_scanner)"
  shows "sm_usage (summary_of p chunks oc) =
      last_option (List.map_filter (usage_of p) (stream_payloads (concat chunks)))"
    and "sm_saw_done (summary_of p chunks oc) = (done_marker \<in> set (stream_payloads (concat chunks)))"
  using feed_all_eq[OF assms] split_events_payloads[of "concat chunks"]
  by (cases "split_events (concat chunks)";
      auto simp: summary_of_def Let_def process_all_effect new_scanner_def split: option.splits)+

text \<open>Accounting is a function of what the client received: when the delivered bytes fit the event
  buffer, the reported usage is the last usage object of the event stream they form, however the network
  cut them into chunks and whatever the end of the stream was.\<close>
theorem accounted_usage_is_streamed:
  assumes "relay_session p timer timeout start us = (outs, [summary])"
    and "length (concat (delivered outs)) \<le> 1024 * 1024"
  shows "sm_usage summary =
      last_option (List.map_filter (usage_of p) (stream_payloads (concat (delivered outs))))
    \<and> sm_bytes_relayed summary = of_nat (length (concat (delivered outs)))"
proof -
  have "\<not> sc_overflowed (feed_all p (delivered outs) new_scanner)"
    using assms(2) by (intro short_stream_no_overflow) (simp_all add: max_event_buffer_def)
  moreover have "summary = summary_of p (delivered outs)
      (final_outcome (snd (stream_life timer timeout (start + timeout) us)))"
    using relay_session_life[of timer timeout start us "fst (stream_life timer timeout (start + timeout) us)"
      "snd (stream_life timer timeout (start + timeout) us)" p] assms(1) by auto
  ultimately show ?thesis by (simp add: summary_usage) (simp add: summary_of_def Let_def)
qed

definition sample_parse_env :: "bytes \<Rightarrow> usage option option" where
  "sample_parse_env data = Some (Some \<lparr>us_prompt = 3, us_completion = 4, us_total = 7\<rparr>)"

lemma accounted_usage_is_streamed_witness:
  "sm_bytes_relayed (hd (snd (relay_session sample_parse_env (\<le>) 30 0
     [(UpChunk ''data: {'', 10), (UpPending, 20), (UpEnd, 30)]))) = 7"
proof -
  let ?us = "[(UpChunk ''data: {'', 10), (UpPending, 20), (UpEnd, 30)]"
  let ?r = "relay_session sample_parse_env (\<le>) 30 0 ?us"
  obtain outs s where r: "?r = (outs, [s])" and d: "delivered outs = [''data: {'']"
    using relay_session_life[of "(\<le>)" 30 0 ?us "[''data: {'']" "Some Completed" sample_parse_env]
    by (cases ?r) auto
  show ?thesis using accounted_usage_is_streamed[OF r] by (simp add: r d)
qed

end
