(* ===== verification/Client.thy ===== *)
theory Client
  imports Config
begin

text \<open>
  The HTTP client of \<open>src/upstream.rs\<close>: upstream errors and \<open>open_sse\<close>.  The transport is an
  argument \<open>send\<close>: for a request it gives a connection-level error or a response; \<open>is_success\<close>
  is the HTTP library's test of a status code.
\<close>

datatype upstream_error = Http string | BadStatus string u16 string

definition is_retryable :: "upstream_error \<Rightarrow> bool" where
  "is_retryable e = (case e of Http _ \<Rightarrow> True | BadStatus _ status _ \<Rightarrow> status = 429 \<or> status \<ge> 500)"

definition upstream_status :: "upstream_error \<Rightarrow> u16 option" where
  "upstream_status e = (case e of BadStatus _ status _ \<Rightarrow> Some status | Http _ \<Rightarrow> None)"

fun show_upstream_error :: "upstream_error \<Rightarrow> string" where
  "show_upstream_error (Http e) = ''http client error: '' @ e"
| "show_upstream_error (BadStatus backend status body) =
     ''upstream `'' @ backend @ ''` returned '' @ show_nat (unat status) @ '': '' @ body"

record http_request =
  hq_url :: string
  hq_headers :: "(string \<times> string) list"
  hq_bearer_auth :: "string option"
  hq_body :: bytes

text \<open>
  A response: its status, its \<open>Content-Type\<close>, and what reading the rest gives, as text (an
  error is no text) and as bytes.
\<close>

record http_response =
  hr_status :: u16
  hr_content_type :: "bytes option"
  hr_text :: "string option"
  hr_bytes :: "string + bytes"

text \<open>
  \<open>chars().take(n)\<close> on UTF-8 bytes: a character begins at every byte that is not a continuation
  byte.
\<close>

definition is_continuation :: "char \<Rightarrow> bool" where
  "is_continuation c \<longleftrightarrow> 128 \<le> (of_char c :: nat) \<and> (of_char c :: nat) < 192"

fun take_chars :: "nat \<Rightarrow> bytes \<Rightarrow> bytes" where
  "take_chars n [] = []"
| "take_chars n (c # cs) =
     (if is_continuation c then c # take_chars n cs
      else (case n of 0 \<Rightarrow> [] | Suc m \<Rightarrow> c # take_chars m cs))"

definition build_request :: "backend \<Rightarrow> string \<Rightarrow> bytes \<Rightarrow> http_request" where
  "build_request backend path body =
     \<lparr>hq_url = be_base_url backend @ path,
      hq_headers = [(''content-type'', ''application/json''), (''accept'', ''text/event-stream'')],
      hq_bearer_auth = map_option expose (be_api_key backend),
      hq_body = body\<rparr>"

definition open_sse ::
  "(u16 \<Rightarrow> bool) \<Rightarrow> (http_request \<Rightarrow> string + http_response) \<Rightarrow> backend \<Rightarrow> string \<Rightarrow> bytes
     \<Rightarrow> upstream_error + http_response" where
  "open_sse is_success send backend path body =
     (case send (build_request backend path body) of
        Inl e \<Rightarrow> Inl (Http e)
      | Inr resp \<Rightarrow>
          if \<not> is_success (hr_status resp)
          then (let text = (case hr_text resp of None \<Rightarrow> [] | Some t \<Rightarrow> t)
                in Inl (BadStatus (be_name backend) (hr_status resp) (take_chars 2048 text)))
          else Inr resp)"

section \<open>Properties\<close>

definition char_count :: "bytes \<Rightarrow> nat" where
  "char_count cs = length (filter (\<lambda>c. \<not> is_continuation c) cs)"

lemma take_chars_prefix: "\<exists>rest. cs = take_chars n cs @ rest"
proof (induction n cs rule: take_chars.induct)
  case (2 n c cs)
  then show ?case by (cases "is_continuation c"; cases n) auto
qed simp

lemma take_chars_count: "char_count (take_chars n cs) = min n (char_count cs)"
proof (induction n cs rule: take_chars.induct)
  case (2 n c cs)
  then show ?case by (cases "is_continuation c"; cases n) (auto simp: char_count_def)
qed (simp add: char_count_def)

text \<open>\<open>open_sse\<close> sends one request, to the backend's own URL and with the backend's own
  credentials, carrying the client's bytes verbatim; it returns the response exactly when its status is
  a success, and otherwise an error that names the backend and the status and quotes at most 2048
  characters, a prefix, of the response text.\<close>
theorem open_sse_spec:
  "hq_body (build_request backend path body) = body
   \<and> (case send (build_request backend path body) of
        Inl e \<Rightarrow> open_sse is_success send backend path body = Inl (Http e)
      | Inr resp \<Rightarrow>
          if is_success (hr_status resp) then open_sse is_success send backend path body = Inr resp
          else \<exists>quoted rest. open_sse is_success send backend path body =
                 Inl (BadStatus (be_name backend) (hr_status resp) quoted)
               \<and> (case hr_text resp of None \<Rightarrow> [] | Some t \<Rightarrow> t) = quoted @ rest
               \<and> char_count quoted \<le> 2048)"
proof -
  have quoted: "\<exists>quoted rest. take_chars 2048 t = quoted \<and> t = quoted @ rest \<and> char_count quoted \<le> 2048" for t
    using take_chars_prefix[of t 2048] by (auto simp: take_chars_count)
  show ?thesis
    using quoted by (auto simp: open_sse_def build_request_def Let_def split: sum.splits)
qed

end
