(* ===== verification/Server.thy ===== *)
theory Server
  imports Routing Auth Client Relay Budget Rate_Limits Metrics
begin

text \<open>
  \<open>src/server.rs\<close>: the application state, the retry loop and the request handlers.  A handler
  takes the shared state and returns the response, the new state and the trace of what it did on the
  network, in order.  Libraries and the outside world are the arguments collected in \<open>externals\<close>
  and \<open>world\<close>.
\<close>

section \<open>State, libraries, and the outside world\<close>

record 'g app_state =
  ap_router :: router
  ap_keys :: key_store
  ap_budget :: ledger
  ap_limits :: "'g rate_store"
  ap_metrics :: metrics

record completion_request =
  cr_model :: string
  cr_stream :: bool

definition default_request :: completion_request where
  "default_request = \<lparr>cr_model = [], cr_stream = False\<rparr>"

text \<open>
  Library functions: the governor's check, the two JSON decodings, the status-code tests of the HTTP
  library and the \<open>Debug\<close> form of a string.
\<close>

record 'g externals =
  ex_check_key :: "nat \<Rightarrow> string \<Rightarrow> 'g \<Rightarrow> bool \<times> 'g"
  ex_parse_request :: "bytes \<Rightarrow> completion_request option"
  ex_parse_value :: "bytes \<Rightarrow> json option"
  ex_usage_from_value :: "json \<Rightarrow> usage option"
  ex_is_success :: "u16 \<Rightarrow> bool"
  ex_status_from_u16 :: "u16 \<Rightarrow> u16 option"
  ex_debug_str :: "string \<Rightarrow> string"

text \<open>
  What one request meets: the governor's clock, the wall clock, the hash of the jitter and the
  transport's answer for each attempt, and the time at which a relay starts.
\<close>

record world =
  wo_instant :: nat
  wo_now :: u64
  wo_noise :: "nat \<Rightarrow> u64"
  wo_send :: "nat \<Rightarrow> http_request \<Rightarrow> string + http_response"
  wo_start :: nat

datatype net_event = Slept u64 | Sent backend http_request

text \<open>A streamed response: the relay, and the accounting task that waits for its summary.\<close>

record stream_task =
  st_key :: string
  st_backend :: string
  st_model :: string
  st_relay :: relay

definition app_state_from_config ::
  "(string + unit) \<Rightarrow> (u32 \<Rightarrow> 'g) \<Rightarrow> (string \<Rightarrow> ledger_snapshot option) \<Rightarrow> u64 \<Rightarrow> fs
     \<Rightarrow> 'addr gateway_config \<Rightarrow> (string + 'g app_state) option" where
  "app_state_from_config new_client keyed from_json now fs cfg =
     map_option (\<lambda>router.
       and_then new_client (\<lambda>_.
         Inr \<lparr>ap_router = router,
              ap_keys = from_virtual_keys (cfg_virtual_keys cfg),
              ap_budget = ledger_new from_json Map.empty 3600 None now fs,
              ap_limits = rate_store_new keyed Map.empty,
              ap_metrics = metrics_new\<rparr>))
       (router_from_config cfg)"

section \<open>Retry policy\<close>

definition max_retries :: nat where "max_retries = 5"
definition attempt_numbers :: "nat list" where "attempt_numbers = [0 ..< Suc max_retries]"
definition base_backoff_ms :: u64 where "base_backoff_ms = 100"
definition max_backoff_ms :: u64 where "max_backoff_ms = 2000"
definition stall_timeout :: nat where "stall_timeout = 30 * 1000000000"

definition backoff_ms :: "nat \<Rightarrow> u64" where
  "backoff_ms attempt =
     (let ms = base_backoff_ms * push_bit (min attempt 10) 1 in min ms max_backoff_ms)"

definition jitter :: "u64 \<Rightarrow> u64 \<Rightarrow> u64" where
  "jitter hash ms = (let noise = hash mod (ms div 4 + 1) in ms + noise)"

section \<open>Responses\<close>

definition error_response :: "u16 \<Rightarrow> string \<Rightarrow> string \<Rightarrow> 's response" where
  "error_response status err_type message =
     \<lparr>rsp_status = status, rsp_headers = [],
      rsp_body = JsonBody (JObject [(''error'', JObject
        [(''message'', JString message), (''type'', JString err_type),
         (''code'', JNumber (unat status))])])\<rparr>"

fun join_strings :: "string \<Rightarrow> string list \<Rightarrow> string" where
  "join_strings sep [] = []"
| "join_strings sep [x] = x"
| "join_strings sep (x # xs) = x @ sep @ join_strings sep xs"

fun show_route_error :: "(string \<Rightarrow> string) \<Rightarrow> route_error \<Rightarrow> string" where
  "show_route_error debug_str (NoEligibleBackend model required_tags privacy) =
     ''no eligible backend for model `'' @ model @ ''` ('' @ privacy @ '' request, required tags ['' @
     join_strings '', '' (map debug_str required_tags) @ ''])''"

section \<open>Operations on the shared state\<close>

text \<open>
  After the rate check, the handlers and the accounting task touch the shared state through the calls
  below, one at a time; other threads run between any two of them.  A piece of a handler therefore
  gives the list of the calls it makes, in order.  The clock is read by \<open>record_tpm\<close> when it is called,
  and both callers drop its verdict.
\<close>

datatype shared_op =
    BudgetRecord string usage
  | TokenMetrics string usage
  | TpmRecord string u64
  | RequestMetric string string string
  | UpstreamErrorMetric string
  | LimitRejection string

fun perform :: "u64 \<Rightarrow> shared_op \<Rightarrow> 'g app_state \<Rightarrow> 'g app_state" where
  "perform now (BudgetRecord key u) st = st\<lparr>ap_budget := budget_record key u (ap_budget st)\<rparr>"
| "perform now (TokenMetrics key u) st = st\<lparr>ap_metrics := record_tokens key u (ap_metrics st)\<rparr>"
| "perform now (TpmRecord key n) st = st\<lparr>ap_limits := snd (record_tpm now key n (ap_limits st))\<rparr>"
| "perform now (RequestMetric backend model status) st =
     st\<lparr>ap_metrics := record_request backend model status (ap_metrics st)\<rparr>"
| "perform now (UpstreamErrorMetric backend) st =
     st\<lparr>ap_metrics := record_upstream_error backend (ap_metrics st)\<rparr>"
| "perform now (LimitRejection key) st =
     st\<lparr>ap_metrics := record_rate_limit_rejection key (ap_metrics st)\<rparr>"

definition perform_all :: "u64 \<Rightarrow> shared_op list \<Rightarrow> 'g app_state \<Rightarrow> 'g app_state" where
  "perform_all now ops st = fold (perform now) ops st"

section \<open>Accounting\<close>

text \<open>The three calls both response paths make with a usage.\<close>

definition account_ops :: "string \<Rightarrow> usage \<Rightarrow> shared_op list" where
  "account_ops key u = [BudgetRecord key u, TokenMetrics key u, TpmRecord key (us_total u)]"

text \<open>The calls of the task spawned by \<open>stream_response\<close>; no summary means the channel was closed.\<close>

definition accounting_task :: "stream_task \<Rightarrow> relay_summary option \<Rightarrow> shared_op list" where
  "accounting_task task received =
     (case received of
        None \<Rightarrow> []
      | Some summary \<Rightarrow>
         (case sm_usage summary of None \<Rightarrow> [] | Some u \<Rightarrow> account_ops (st_key task) u) @
         (case sm_outcome summary of
            Completed \<Rightarrow> []
          | Stalled \<Rightarrow> [UpstreamErrorMetric (st_backend task)]
          | UpstreamFailure e \<Rightarrow> [UpstreamErrorMetric (st_backend task)]
          | ClientDisconnected \<Rightarrow> []))"

definition stream_response ::
  "nat \<Rightarrow> string \<Rightarrow> string \<Rightarrow> string \<Rightarrow> bytes \<Rightarrow> stream_task response" where
  "stream_response start key_name backend_name model content_type =
     \<lparr>rsp_status = status_ok,
      rsp_headers = [(''content-type'', content_type), (''X-Accel-Buffering'', ''no''),
                     (''Cache-Control'', ''no-cache'')],
      rsp_body = StreamBody \<lparr>st_key = key_name, st_backend = backend_name, st_model = model,
                             st_relay = relay_new stall_timeout start\<rparr>\<rparr>"

text \<open>The usage object of a buffered body, if there is one.\<close>

definition body_usage :: "'g externals \<Rightarrow> bytes \<Rightarrow> usage option" where
  "body_usage ex body =
     Option.bind (Option.bind (ex_parse_value ex body) (json_get ''usage'')) (ex_usage_from_value ex)"

definition buffered_response ::
  "'g externals \<Rightarrow> string \<Rightarrow> string \<Rightarrow> http_response \<Rightarrow> stream_task response \<times> shared_op list" where
  "buffered_response ex key_name backend_name resp =
     (let ct = (case hr_content_type resp of None \<Rightarrow> ''application/json'' | Some c \<Rightarrow> c)
      in case hr_bytes resp of
           Inl e \<Rightarrow>
             (error_response status_bad_gateway ''upstream_error'' e, [UpstreamErrorMetric backend_name])
         | Inr body \<Rightarrow>
             (\<lparr>rsp_status = hr_status resp, rsp_headers = [(''content-type'', ct)], rsp_body = BytesBody body\<rparr>,
              (case body_usage ex body of None \<Rightarrow> [] | Some u \<Rightarrow> account_ops key_name u)))"

section \<open>The retry loop\<close>

datatype forwarded =
    GotResponse http_response
  | PassThrough upstream_error
  | Exhausted "upstream_error option"

definition attempt_trace :: "world \<Rightarrow> backend \<Rightarrow> bytes \<Rightarrow> nat \<Rightarrow> net_event list" where
  "attempt_trace w backend body attempt =
     (if attempt > 0 then [Slept (jitter (wo_noise w attempt) (backoff_ms (attempt - 1)))] else []) @
     [Sent backend (build_request backend ''/v1/chat/completions'' body)]"

definition try_attempt ::
  "'g externals \<Rightarrow> world \<Rightarrow> backend \<Rightarrow> bytes \<Rightarrow> nat \<Rightarrow> upstream_error + http_response" where
  "try_attempt ex w backend body attempt =
     open_sse (ex_is_success ex) (wo_send w attempt) backend ''/v1/chat/completions'' body"

fun forward_loop ::
  "'g externals \<Rightarrow> world \<Rightarrow> backend \<Rightarrow> bytes \<Rightarrow> nat list \<Rightarrow> upstream_error option \<Rightarrow> metrics
     \<Rightarrow> forwarded \<times> metrics \<times> net_event list" where
  "forward_loop ex w backend body [] last_err m = (Exhausted last_err, m, [])"
| "forward_loop ex w backend body (attempt # attempts) last_err m =
     (case try_attempt ex w backend body attempt of
        Inr resp \<Rightarrow> (GotResponse resp, m, attempt_trace w backend body attempt)
      | Inl e \<Rightarrow>
         (let m' = record_upstream_error (be_name backend) m
          in if \<not> is_retryable e then (PassThrough e, m', attempt_trace w backend body attempt)
             else (case forward_loop ex w backend body attempts (Some e) m' of
                     (res, m'', tr) \<Rightarrow> (res, m'', attempt_trace w backend body attempt @ tr))))"

section \<open>The handlers\<close>

text \<open>What follows the loop: the response, and the calls made on the way to it.\<close>

definition respond ::
  "'g externals \<Rightarrow> nat \<Rightarrow> string \<Rightarrow> backend \<Rightarrow> completion_request \<Rightarrow> forwarded
     \<Rightarrow> stream_task response \<times> shared_op list" where
  "respond ex start key_name backend req res =
     (case res of
        GotResponse resp \<Rightarrow>
          (let counted = RequestMetric (be_name backend) (cr_model req) ''2xx'';
               content_type = (case hr_content_type resp of
                   Some c \<Rightarrow> c
                 | None \<Rightarrow> if cr_stream req then ''text/event-stream'' else ''application/json'')
           in if cr_stream req
              then (stream_response start key_name (be_name backend) (cr_model req) content_type, [counted])
              else (case buffered_response ex key_name (be_name backend) resp of
                      (rsp, ops) \<Rightarrow> (rsp, counted # ops)))
      | PassThrough e \<Rightarrow>
          (let http_status = (case Option.bind (upstream_status e) (ex_status_from_u16 ex) of
                 None \<Rightarrow> status_bad_gateway | Some s \<Rightarrow> s)
           in (error_response http_status ''upstream_error'' (show_upstream_error e), []))
      | Exhausted last_err \<Rightarrow>
          (let msg = (case last_err of None \<Rightarrow> ''upstream unreachable'' | Some e \<Rightarrow> show_upstream_error e)
           in (error_response status_bad_gateway ''upstream_error'' msg,
               [RequestMetric (be_name backend) (cr_model req) ''5xx''])))"

text \<open>The handler when nothing else runs meanwhile; theory \<open>Requests\<close> takes it apart.\<close>

definition chat_completions ::
  "'g externals \<Rightarrow> world \<Rightarrow> key_identity \<Rightarrow> bytes \<Rightarrow> 'g app_state
     \<Rightarrow> stream_task response \<times> 'g app_state \<times> net_event list" where
  "chat_completions ex w identity body st =
     (case check_rpm (ex_check_key ex) (wo_instant w) (ki_name identity) (ap_limits st) of
        (Inl e, limits) \<Rightarrow>
          (error_response status_too_many_requests ''rate_limit_exceeded'' (show_limit_exceeded e),
           st\<lparr>ap_limits := limits,
              ap_metrics := record_rate_limit_rejection (ki_name identity) (ap_metrics st)\<rparr>, [])
      | (Inr _, limits) \<Rightarrow>
          (let st0 = st\<lparr>ap_limits := limits\<rparr>;
               req = (case ex_parse_request ex body of None \<Rightarrow> default_request | Some r \<Rightarrow> r)
           in if cr_model req = []
              then (error_response status_bad_request ''invalid_request_error'' ''field `model` is required'',
                    st0, [])
              else (case route (ap_router st) (new_query (cr_model req)) (ki_enforce_private identity) of
                      Inl e \<Rightarrow>
                        (error_response status_bad_gateway ''no_eligible_backend''
                           (show_route_error (ex_debug_str ex) e), st0, [])
                    | Inr backend \<Rightarrow>
                        (case forward_loop ex w backend body attempt_numbers None (ap_metrics st0) of
                           (res, m, tr) \<Rightarrow>
                             (case respond ex (wo_start w) (ki_name identity) backend req res of
                                (rsp, ops) \<Rightarrow> (rsp, perform_all (wo_now w) ops (st0\<lparr>ap_metrics := m\<rparr>), tr))))))"

text \<open>
  \<open>list_models\<close>: the configured identifiers, once each, in the order in which the hash set
  happens to iterate (\<open>hash_order\<close>).
\<close>

definition list_models :: "(string set \<Rightarrow> string list) \<Rightarrow> 'g app_state \<Rightarrow> 's response" where
  "list_models hash_order st =
     (let models = map (\<lambda>m. JObject [(''id'', JString m), (''object'', JString ''model''),
                                     (''owned_by'', JString ''patchbay'')])
            (hash_order (set (concat (map be_models (ro_backends (ap_router st))))))
      in \<lparr>rsp_status = status_ok, rsp_headers = [],
          rsp_body = JsonBody (JObject [(''object'', JString ''list''), (''data'', JArray models)])\<rparr>)"

definition healthz :: u16 where "healthz = status_ok"

definition metrics_endpoint :: "'g app_state \<Rightarrow> 's response" where
  "metrics_endpoint st =
     (let body = render (ap_metrics st);
          content_type = (''content-type'', ''text/plain; version=0.0.4; charset=utf-8'')
      in if body = []
         then \<lparr>rsp_status = status_ok, rsp_headers = [content_type], rsp_body = EmptyBody\<rparr>
         else \<lparr>rsp_status = status_ok, rsp_headers = [content_type], rsp_body = BytesBody body\<rparr>)"

text \<open>
  \<open>build_router\<close>: the routes, with the extractor in front of the two handlers that take an
  identity.  A request that matches no route never reaches the modelled code.
\<close>

datatype route_request =
    PostChatCompletions "bytes option" bytes
  | GetModels "bytes option"
  | GetHealthz
  | GetMetrics

definition dispatch_request ::
  "'g externals \<Rightarrow> (bytes \<Rightarrow> string option) \<Rightarrow> (string set \<Rightarrow> string list) \<Rightarrow> world \<Rightarrow> route_request
     \<Rightarrow> 'g app_state \<Rightarrow> stream_task response \<times> 'g app_state \<times> net_event list" where
  "dispatch_request ex to_str hash_order w req st =
     (case req of
        PostChatCompletions authorization body \<Rightarrow>
          (case from_request_parts to_str (ap_keys st) authorization of
             Inl e \<Rightarrow> (auth_error_response e, st, [])
           | Inr identity \<Rightarrow> chat_completions ex w identity body st)
      | GetModels authorization \<Rightarrow>
          (case from_request_parts to_str (ap_keys st) authorization of
             Inl e \<Rightarrow> (auth_error_response e, st, [])
           | Inr identity \<Rightarrow> (list_models hash_order st, st, []))
      | GetHealthz \<Rightarrow> (\<lparr>rsp_status = healthz, rsp_headers = [], rsp_body = EmptyBody\<rparr>, st, [])
      | GetMetrics \<Rightarrow> (metrics_endpoint st, st, []))"

section \<open>Waiting\<close>

lemma unat_backoff_ms: "unat (backoff_ms n) = min (100 * 2 ^ min n 10) 2000"
proof -
  have small: "(2::nat) ^ min n 10 \<le> 2 ^ 10" by (rule power_increasing) simp_all
  then have lt: "100 * 2 ^ min n 10 < (2::nat) ^ 64" by simp
  have "base_backoff_ms * push_bit (min n 10) 1 = (of_nat (100 * 2 ^ min n 10) :: u64)"
    by (simp add: base_backoff_ms_def push_bit_eq_mult)
  moreover have "unat (of_nat (100 * 2 ^ min n 10) :: u64) = 100 * 2 ^ min n 10"
    using lt by (simp only: unat_of_nat) simp
  ultimately show ?thesis
    by (simp only: backoff_ms_def Let_def max_backoff_ms_def)
       (simp add: min_def word_le_nat_alt)
qed

lemma unat_jitter:
  assumes "unat ms \<le> 2000"
  shows "unat ms \<le> unat (jitter h ms)" "unat (jitter h ms) \<le> unat ms + unat ms div 4"
proof -
  have q: "unat (ms div 4 + 1) = unat ms div 4 + 1"
    using assms by (subst unat_add_lem[THEN iffD1]) (simp_all add: unat_div)
  have "unat (h mod (ms div 4 + 1)) = unat h mod (unat ms div 4 + 1)"
    by (simp only: unat_mod q)
  moreover have "\<dots> \<le> unat ms div 4"
    using mod_less_divisor[of "unat ms div 4 + 1" "unat h"] by simp
  ultimately have n: "unat (h mod (ms div 4 + 1)) \<le> unat ms div 4" by simp
  then have "unat (jitter h ms) = unat ms + unat (h mod (ms div 4 + 1))"
    unfolding jitter_def Let_def using assms
    by (subst unat_add_lem[THEN iffD1]) simp_all
  with n show "unat ms \<le> unat (jitter h ms)" "unat (jitter h ms) \<le> unat ms + unat ms div 4" by simp_all
qed

text \<open>The wait before a retry is the truncated exponential 100, 200, 400, ... ms, capped at two seconds,
  plus at most a quarter of it; nothing overflows, for any attempt number and any hash.\<close>
theorem wait_bounds:
  "let base = min (100 * 2 ^ min attempt 10) 2000
   in base \<le> unat (jitter hash (backoff_ms attempt))
      \<and> unat (jitter hash (backoff_ms attempt)) \<le> base + base div 4"
  using unat_jitter[of "backoff_ms attempt" hash] by (simp add: unat_backoff_ms Let_def)

section \<open>The retry loop\<close>

text \<open>An attempt is decisive when the loop ends with it: a response, or an error not worth a retry.\<close>

definition decisive :: "upstream_error + http_response \<Rightarrow> bool" where
  "decisive r = (case r of Inr _ \<Rightarrow> True | Inl e \<Rightarrow> \<not> is_retryable e)"

fun decided :: "upstream_error + http_response \<Rightarrow> forwarded" where
  "decided (Inr resp) = GotResponse resp"
| "decided (Inl e) = PassThrough e"

definition failed_attempt :: "upstream_error + http_response \<Rightarrow> bool" where
  "failed_attempt r = (case r of Inl _ \<Rightarrow> True | Inr _ \<Rightarrow> False)"

text \<open>The attempts the loop makes: up to and including the first decisive one.\<close>

fun attempts_made :: "(nat \<Rightarrow> upstream_error + http_response) \<Rightarrow> nat list \<Rightarrow> nat list" where
  "attempts_made outcome [] = []"
| "attempts_made outcome (i # is) = i # (if decisive (outcome i) then [] else attempts_made outcome is)"

definition loop_result ::
  "(nat \<Rightarrow> upstream_error + http_response) \<Rightarrow> nat list \<Rightarrow> upstream_error option \<Rightarrow> forwarded" where
  "loop_result outcome is last_err =
     (case find (\<lambda>i. decisive (outcome i)) is of
        Some i \<Rightarrow> decided (outcome i)
      | None \<Rightarrow> Exhausted (if is = [] then last_err
                            else case outcome (last is) of Inl e \<Rightarrow> Some e | Inr _ \<Rightarrow> None))"

lemma forward_loop_eq:
  fixes ex w b body
  defines "outcome \<equiv> try_attempt ex w b body"
  shows "forward_loop ex w b body is le m =
    (loop_result outcome is le,
     (record_upstream_error (be_name b) ^^ length (filter (failed_attempt \<circ> outcome) (attempts_made outcome is))) m,
     concat (map (attempt_trace w b body) (attempts_made outcome is)))"
proof (induction "is" arbitrary: le m)
  case Nil
  then show ?case by (simp add: loop_result_def)
next
  case (Cons i "is")
  show ?case
  proof (cases "outcome i")
    case (Inr resp)
    then show ?thesis
      by (simp add: outcome_def[symmetric] loop_result_def decisive_def failed_attempt_def)
  next
    case (Inl e)
    then show ?thesis
      using Cons.IH[of "Some e" "record_upstream_error (be_name b) m"]
      by (auto simp: outcome_def[symmetric] loop_result_def decisive_def failed_attempt_def funpow_swap1
          split: option.split)
  qed
qed

definition waited :: "net_event list \<Rightarrow> nat" where
  "waited tr = (\<Sum>e \<leftarrow> tr. case e of Slept ms \<Rightarrow> unat ms | Sent b q \<Rightarrow> 0)"

definition sends :: "net_event list \<Rightarrow> (backend \<times> http_request) list" where
  "sends tr = concat (map (\<lambda>e. case e of Slept ms \<Rightarrow> [] | Sent b q \<Rightarrow> [(b, q)]) tr)"

lemma waited_sends_append [simp]:
  "waited [] = 0" "waited (a @ b) = waited a + waited b" "sends [] = []" "sends (a @ b) = sends a @ sends b"
  by (simp_all add: waited_def sends_def)

lemma attempt_trace_facts:
  "sends (attempt_trace w b body i) = [(b, build_request b ''/v1/chat/completions'' body)]"
  "waited (attempt_trace w b body i) \<le> (if i = 0 then 0 else min (100 * 2 ^ min (i - 1) 10) 2000 + min (100 * 2 ^ min (i - 1) 10) 2000 div 4)"
  using unat_jitter(2)[of "backoff_ms (i - 1)" "wo_noise w i"]
  by (simp_all add: attempt_trace_def sends_def waited_def unat_backoff_ms)

lemma attempts_made_prefix: "\<exists>rest. is = attempts_made outcome is @ rest"
  by (induction "is") auto

lemma attempts_made_Nil: "attempts_made outcome is = [] \<longleftrightarrow> is = []"
  by (cases "is") simp_all

lemma sends_attempts:
  "sends (concat (map (attempt_trace w b body) is)) =
     replicate (length is) (b, build_request b ''/v1/chat/completions'' body)"
  by (induction "is") (simp_all add: attempt_trace_facts)

lemma waited_attempts:
  "waited (concat (map (attempt_trace w b body) is)) =
     (\<Sum>i \<leftarrow> is. waited (attempt_trace w b body i))"
  by (induction "is") simp_all

lemma waited_prefix: "xs = ys @ zs \<Longrightarrow> (\<Sum>i \<leftarrow> ys. f i) \<le> (\<Sum>i \<leftarrow> xs. (f i :: nat))"
  by simp

lemma attempts_list: "attempt_numbers = [0, 1, 2, 3, 4, 5]"
  by (simp add: attempt_numbers_def max_retries_def upt_rec)

lemma waited_six: "(\<Sum>i \<leftarrow> attempt_numbers. waited (attempt_trace w b body i)) \<le> 3875"
  using attempt_trace_facts(2)[of w b body 0] attempt_trace_facts(2)[of w b body 1]
    attempt_trace_facts(2)[of w b body 2] attempt_trace_facts(2)[of w b body 3]
    attempt_trace_facts(2)[of w b body 4] attempt_trace_facts(2)[of w b body 5]
  unfolding attempts_list by simp

text \<open>C14: one client request costs between one and six upstream requests, all of them the same: the
  client's bytes to the routed backend; and the gateway waits less than four seconds in all.\<close>
theorem retry_bounds:
  "case forward_loop ex w backend body attempt_numbers None m of (res, m', tr) \<Rightarrow>
     (\<exists>n. 1 \<le> n \<and> n \<le> 6 \<and>
        sends tr = replicate n (backend, build_request backend ''/v1/chat/completions'' body))
     \<and> waited tr \<le> 3875"
proof -
  let ?made = "attempts_made (try_attempt ex w backend body) attempt_numbers"
  obtain rest where split: "attempt_numbers = ?made @ rest" using attempts_made_prefix by blast
  have "length ?made \<le> 6" using arg_cong[OF split, of length] by (simp add: attempts_list)
  moreover have "?made \<noteq> []" unfolding attempts_made_Nil by (simp add: attempts_list)
  then have "1 \<le> length ?made" by (cases ?made) simp_all
  moreover have "(\<Sum>i \<leftarrow> ?made. waited (attempt_trace w backend body i)) \<le> 3875"
    using waited_prefix[OF split, of "\<lambda>i. waited (attempt_trace w backend body i)"]
      waited_six[of w backend body] by simp
  ultimately show ?thesis
    by (simp only: forward_loop_eq prod.case sends_attempts waited_attempts) blast
qed

lemma loop_decision:
  "fst (forward_loop ex w backend body attempt_numbers None m) =
     (case find (\<lambda>i. decisive (try_attempt ex w backend body i)) [0, 1, 2, 3, 4, 5] of
        Some i \<Rightarrow> decided (try_attempt ex w backend body i)
      | None \<Rightarrow> Exhausted (case try_attempt ex w backend body 5 of Inl e \<Rightarrow> Some e | Inr _ \<Rightarrow> None))"
  by (simp only: forward_loop_eq fst_conv loop_result_def) (simp only: attempts_list last.simps, simp)

lemma decisive_answer:
  "decisive (try_attempt ex w b body i) \<longleftrightarrow>
     (case wo_send w i (build_request b ''/v1/chat/completions'' body) of
        Inl e \<Rightarrow> False
      | Inr resp \<Rightarrow> ex_is_success ex (hr_status resp) \<or> unat (hr_status resp) < 500 \<and> unat (hr_status resp) \<noteq> 429)"
proof -
  have c: "unat s = 429 \<longleftrightarrow> s = 429" "s \<ge> 500 \<longleftrightarrow> 500 \<le> unat s" for s :: u16
    by (simp_all add: word_le_nat_alt word_unat_eq_iff)
  show ?thesis
    by (auto simp: decisive_def try_attempt_def open_sse_def is_retryable_def Let_def c split: sum.split)
qed

text \<open>The error of an attempt, read off the answer.\<close>

definition attempt_error :: "backend \<Rightarrow> string + http_response \<Rightarrow> upstream_error" where
  "attempt_error b answer = (case answer of
     Inl e \<Rightarrow> Http e
   | Inr resp \<Rightarrow> BadStatus (be_name b) (hr_status resp)
       (take_chars 2048 (case hr_text resp of None \<Rightarrow> [] | Some t \<Rightarrow> t)))"

lemma attempt_result:
  fixes ex w b body i
  defines "answer \<equiv> wo_send w i (build_request b ''/v1/chat/completions'' body)"
  shows "decided (try_attempt ex w b body i) = (case answer of
        Inl e \<Rightarrow> PassThrough (Http e)
      | Inr resp \<Rightarrow> if ex_is_success ex (hr_status resp) then GotResponse resp else PassThrough (attempt_error b answer))"
    and "\<not> decisive (try_attempt ex w b body i) \<Longrightarrow>
      (case try_attempt ex w b body i of Inl e \<Rightarrow> Some e | Inr _ \<Rightarrow> None) = Some (attempt_error b answer)"
  by (auto simp: answer_def try_attempt_def open_sse_def attempt_error_def decisive_def Let_def split: sum.split)

text \<open>C13: the retry decision, read off what the backend answers. The attempts are numbered 0 to 5, and
  the loop ends with the first one that is answered with a success, which gives the response, or with a
  status below 500 other than 429, which gives the error with that status; a failed connection, a 429
  and a status of 500 and above are retried, and after the sixth such attempt the loop is exhausted
  with the error of that attempt.\<close>
theorem retry_decision:
  "let answer = (\<lambda>i. wo_send w i (build_request backend ''/v1/chat/completions'' body))
   in fst (forward_loop ex w backend body attempt_numbers None m) =
     (case find (\<lambda>i. case answer i of
                       Inl e \<Rightarrow> False
                     | Inr resp \<Rightarrow> ex_is_success ex (hr_status resp)
                         \<or> unat (hr_status resp) < 500 \<and> unat (hr_status resp) \<noteq> 429) [0, 1, 2, 3, 4, 5] of
        Some i \<Rightarrow> (case answer i of
            Inl e \<Rightarrow> PassThrough (Http e)
          | Inr resp \<Rightarrow> if ex_is_success ex (hr_status resp) then GotResponse resp else PassThrough (attempt_error backend (answer i)))
      | None \<Rightarrow> Exhausted (Some (attempt_error backend (answer 5))))"
proof (cases "find (\<lambda>i. decisive (try_attempt ex w backend body i)) [0, 1, 2, 3, 4, 5]")
  case None
  then have "\<not> decisive (try_attempt ex w backend body 5)"
    by (auto simp: find_None_iff simp del: find.simps dest: spec[of _ 5])
  from None attempt_result(2)[OF this] show ?thesis
    unfolding Let_def decisive_answer[symmetric] loop_decision by (simp only: option.case)
next
  case (Some i)
  then show ?thesis
    unfolding Let_def decisive_answer[symmetric] loop_decision by (simp only: option.case attempt_result)
qed

section \<open>The chat handler\<close>

definition client_request :: "'g externals \<Rightarrow> bytes \<Rightarrow> completion_request" where
  "client_request ex body = (case ex_parse_request ex body of None \<Rightarrow> default_request | Some r \<Rightarrow> r)"

definition admitted :: "'g externals \<Rightarrow> world \<Rightarrow> key_identity \<Rightarrow> 'g app_state \<Rightarrow> limit_exceeded + unit" where
  "admitted ex w identity st =
     fst (check_rpm (ex_check_key ex) (wo_instant w) (ki_name identity) (ap_limits st))"

definition after_check :: "'g externals \<Rightarrow> world \<Rightarrow> key_identity \<Rightarrow> 'g app_state \<Rightarrow> 'g app_state" where
  "after_check ex w identity st =
     st\<lparr>ap_limits := snd (check_rpm (ex_check_key ex) (wo_instant w) (ki_name identity) (ap_limits st))\<rparr>"

definition routed :: "'g externals \<Rightarrow> key_identity \<Rightarrow> bytes \<Rightarrow> 'g app_state \<Rightarrow> route_error + backend" where
  "routed ex identity body st =
     route (ap_router st) (new_query (cr_model (client_request ex body))) (ki_enforce_private identity)"

text \<open>The branches of the handler, in the order of its guards.\<close>

lemma chat_limited:
  assumes "admitted ex w identity st = Inl e"
  shows "chat_completions ex w identity body st =
    (error_response status_too_many_requests ''rate_limit_exceeded'' (show_limit_exceeded e),
     (after_check ex w identity st)\<lparr>ap_metrics :=
        record_rate_limit_rejection (ki_name identity) (ap_metrics st)\<rparr>, [])"
  using assms by (auto simp: chat_completions_def admitted_def after_check_def split: prod.splits)

lemma chat_no_model:
  assumes "admitted ex w identity st = Inr ()" and "cr_model (client_request ex body) = []"
  shows "chat_completions ex w identity body st =
    (error_response status_bad_request ''invalid_request_error'' ''field `model` is required'',
     after_check ex w identity st, [])"
  using assms
  by (auto simp: chat_completions_def admitted_def after_check_def client_request_def Let_def split: prod.splits)

lemma chat_no_backend:
  assumes "admitted ex w identity st = Inr ()" and "cr_model (client_request ex body) \<noteq> []"
    and "routed ex identity body st = Inl e"
  shows "chat_completions ex w identity body st =
    (error_response status_bad_gateway ''no_eligible_backend'' (show_route_error (ex_debug_str ex) e),
     after_check ex w identity st, [])"
  using assms
  by (auto simp: chat_completions_def admitted_def after_check_def client_request_def routed_def Let_def
      split: prod.splits)

lemma chat_forwarded:
  assumes "admitted ex w identity st = Inr ()" and "cr_model (client_request ex body) \<noteq> []"
    and "routed ex identity body st = Inr backend"
  shows "chat_completions ex w identity body st =
    (case forward_loop ex w backend body attempt_numbers None (ap_metrics st) of
       (res, m, tr) \<Rightarrow>
         (case respond ex (wo_start w) (ki_name identity) backend (client_request ex body) res of
            (rsp, ops) \<Rightarrow>
              (rsp, perform_all (wo_now w) ops ((after_check ex w identity st)\<lparr>ap_metrics := m\<rparr>), tr)))"
  using assms
  by (auto simp: chat_completions_def admitted_def after_check_def client_request_def routed_def Let_def
      split: prod.splits)

lemma chat_cases [case_names limited no_model no_backend forwarded]:
  obtains e where "admitted ex w identity st = Inl e"
  | "admitted ex w identity st = Inr ()" "cr_model (client_request ex body) = []"
  | e where "admitted ex w identity st = Inr ()" "cr_model (client_request ex body) \<noteq> []"
      "routed ex identity body st = Inl e"
  | backend where "admitted ex w identity st = Inr ()" "cr_model (client_request ex body) \<noteq> []"
      "routed ex identity body st = Inr backend"
  by (cases "admitted ex w identity st"; cases "cr_model (client_request ex body) = []";
      cases "routed ex identity body st") auto

lemmas chat_branches = chat_limited chat_no_model chat_no_backend chat_forwarded

lemma chat_sends:
  assumes "admitted ex w identity st = Inr ()" and "cr_model (client_request ex body) \<noteq> []"
    and "routed ex identity body st = Inr backend"
  shows "\<exists>n. sends (snd (snd (chat_completions ex w identity body st))) =
    replicate (Suc n) (backend, build_request backend ''/v1/chat/completions'' body)"
proof -
  have "attempts_made (try_attempt ex w backend body) attempt_numbers \<noteq> []"
    by (simp add: attempts_made_Nil attempts_list)
  then obtain n where "length (attempts_made (try_attempt ex w backend body) attempt_numbers) = Suc n"
    by (meson length_0_conv not0_implies_Suc)
  then have "sends (snd (snd (forward_loop ex w backend body attempt_numbers None (ap_metrics st)))) =
      replicate (Suc n) (backend, build_request backend ''/v1/chat/completions'' body)"
    by (simp only: forward_loop_eq snd_conv sends_attempts)
  then show ?thesis
    by (simp add: chat_forwarded[OF assms] split_beta del: replicate_Suc)
qed

lemma routed_complete:
  assumes "ro_policy (ap_router st) = StaticPolicy \<or> (\<exists>e. ro_policy (ap_router st) = EwmaPolicy e)"
  shows "(\<exists>b. routed ex identity body st = Inr b) \<longleftrightarrow>
    (\<exists>b \<in> set (ro_backends (ap_router st)). cr_model (client_request ex body) \<in> set (be_models b)
       \<and> (ki_enforce_private identity \<longrightarrow> be_privacy b = Local))"
proof -
  let ?r = "ap_router st" and ?q = "new_query (cr_model (client_request ex body))"
  have "isl (route ?r ?q p) \<longleftrightarrow> \<not> list_ex (eligible ?q p) (ro_backends ?r)" for p
    using assms honest_policies_complete[of "ro_backends ?r" ?q p]
    by (cases ?r) (auto simp: with_policy_def)
  moreover have "(\<exists>b. x = Inr b) \<longleftrightarrow> \<not> isl x" for x :: "route_error + backend" by (cases x) auto
  ultimately show ?thesis
    by (auto simp: routed_def list_ex_iff eligible_def new_query_def)
qed

lemma routed_eligible:
  assumes "routed ex identity body st = Inr b"
  shows "b \<in> set (ro_backends (ap_router st)) \<and> cr_model (client_request ex body) \<in> set (be_models b)
    \<and> (ki_enforce_private identity \<longrightarrow> be_privacy b = Local)"
  using assms route_only_eligible[of "new_query (cr_model (client_request ex body))" "ki_enforce_private identity" "ap_router st"]
  by (simp add: routed_def eligible_def new_query_def)

text \<open>C19: upstream traffic is caused by admitted, routable requests only. With a policy of the crate
  (static priority or EWMA), the handler contacts a backend exactly when the key is within its request
  rate, the body names a model, and the table has a backend that serves the model and is Local if the
  key enforces privacy; whatever it sends goes to such a backend, at its own URL, and carries the client's
  bytes unchanged, every time.\<close>
theorem traffic_only_when_routed:
  assumes "ro_policy (ap_router st) = StaticPolicy \<or> (\<exists>e. ro_policy (ap_router st) = EwmaPolicy e)"
  shows "(sends (snd (snd (chat_completions ex w identity body st))) \<noteq> [] \<longleftrightarrow>
      admitted ex w identity st = Inr () \<and> cr_model (client_request ex body) \<noteq> [] \<and>
      (\<exists>b \<in> set (ro_backends (ap_router st)). cr_model (client_request ex body) \<in> set (be_models b)
         \<and> (ki_enforce_private identity \<longrightarrow> be_privacy b = Local)))
   \<and> list_all (\<lambda>(b, q). b \<in> set (ro_backends (ap_router st)) \<and> cr_model (client_request ex body) \<in> set (be_models b)
         \<and> (ki_enforce_private identity \<longrightarrow> be_privacy b = Local)
         \<and> hq_url q = be_base_url b @ ''/v1/chat/completions'' \<and> hq_body q = body)
       (sends (snd (snd (chat_completions ex w identity body st))))"
proof (cases rule: chat_cases[where ex = ex and w = w and identity = identity and st = st and body = body])
  case (forwarded backend)
  with chat_sends obtain n where n: "sends (snd (snd (chat_completions ex w identity body st))) =
      replicate (Suc n) (backend, build_request backend ''/v1/chat/completions'' body)" by metis
  from routed_eligible[OF forwarded(3)] forwarded(1,2) show ?thesis
    by (auto simp: n build_request_def list_all_iff)
next
  case (no_backend e)
  then show ?thesis
    using routed_complete[OF assms, of ex identity body] by (auto simp: chat_no_backend[OF no_backend])
qed (simp_all add: chat_branches)

lemma private_sends_local:
  assumes "ki_enforce_private identity"
  shows "list_all (\<lambda>(b, q). b \<in> set (ro_backends (ap_router st)) \<and> be_privacy b = Local
      \<and> serves_model b (cr_model (client_request ex body)))
    (sends (snd (snd (chat_completions ex w identity body st))))"
proof (cases rule: chat_cases[where ex = ex and w = w and identity = identity and st = st and body = body])
  case (forwarded backend)
  with chat_sends obtain n where "sends (snd (snd (chat_completions ex w identity body st))) =
      replicate (Suc n) (backend, build_request backend ''/v1/chat/completions'' body)" by metis
  moreover have "backend \<in> set (filter (eligible (new_query (cr_model (client_request ex body))) True)
      (ro_backends (ap_router st)))"
    using forwarded(3) assms by (auto simp: routed_def route_eq result_simps dest: select_in_items)
  ultimately show ?thesis by (simp add: list_all_iff eligible_def new_query_def)
qed (simp_all add: chat_branches)


text \<open>The privacy guarantee at the network: for a caller whose key enforces privacy, every upstream
  request of the handler, retries included, goes to a configured Local backend that serves the
  requested model.\<close>
theorem private_traffic_stays_local:
  assumes "ki_enforce_private identity"
  shows "list_all (\<lambda>(b, q). b \<in> set (ro_backends (ap_router st)) \<and> be_privacy b = Local
      \<and> serves_model b (cr_model (client_request ex body)))
    (sends (snd (snd (chat_completions ex w identity body st))))"
  using private_sends_local[OF assms] .

definition sample_world :: world where
  "sample_world = \<lparr>wo_instant = 0, wo_now = 7000, wo_noise = (\<lambda>_. 77),
     wo_send = (\<lambda>i q. if i < 2 then Inl ''connection refused''
                else Inr \<lparr>hr_status = 200, hr_content_type = None, hr_text = None,
                          hr_bytes = Inr ''{usage}''\<rparr>),
     wo_start = 0\<rparr>"

definition sample_externals :: "nat externals" where
  "sample_externals =
     \<lparr>ex_check_key = (\<lambda>t k g. (0 < g, g - 1)),
      ex_parse_request = (\<lambda>b. Some \<lparr>cr_model = ''m'', cr_stream = False\<rparr>),
      ex_parse_value = (\<lambda>b. Some (JObject [(''usage'', JNull)])),
      ex_usage_from_value = (\<lambda>v. Some \<lparr>us_prompt = 3, us_completion = 4, us_total = 7\<rparr>),
      ex_is_success = (\<lambda>s. 200 \<le> s \<and> s < 300), ex_status_from_u16 = Some, ex_debug_str = (\<lambda>s. s)\<rparr>"

definition sample_state :: "nat app_state" where
  "sample_state =
     \<lparr>ap_router = with_policy sample_backends StaticPolicy,
      ap_keys = from_virtual_keys (cfg_virtual_keys (resolved_config sample_env sample_raw ())),
      ap_budget = ledger_new (\<lambda>_. None) Map.empty 3600 None 7000 Map.empty,
      ap_limits = rate_store_new unat Map.empty, ap_metrics = metrics_new\<rparr>"

lemma private_traffic_stays_local_witness:
  "list_all (\<lambda>(b, q). b \<in> set (ro_backends (ap_router sample_state)) \<and> be_privacy b = Local
      \<and> serves_model b (cr_model (client_request sample_externals ''{}'')))
    (sends (snd (snd (chat_completions sample_externals sample_world
       \<lparr>ki_name = ''a'', ki_enforce_private = True\<rparr> ''{}'' sample_state))))"
  by (rule private_traffic_stays_local) simp

lemma traffic_only_when_routed_witness:
  "sends (snd (snd (chat_completions sample_externals sample_world
     \<lparr>ki_name = ''a'', ki_enforce_private = True\<rparr> ''{}'' sample_state))) \<noteq> []"
proof -
  have model: "cr_model (client_request sample_externals ''{}'') = ''m''"
    by (simp add: client_request_def sample_externals_def)
  have adm: "admitted sample_externals sample_world \<lparr>ki_name = ''a'', ki_enforce_private = True\<rparr> sample_state = Inr ()"
    by (simp add: admitted_def check_rpm_def rate_limit_for_def sample_state_def rate_store_new_def
        rate_unlimited_def)
  have static: "ro_policy (ap_router sample_state) = StaticPolicy" by (simp add: sample_state_def with_policy_def)
  have "\<exists>b \<in> set (ro_backends (ap_router sample_state)). ''m'' \<in> set (be_models b) \<and> be_privacy b = Local"
    by (simp add: sample_state_def with_policy_def sample_backends_eq)
  with traffic_only_when_routed[OF disjI1[OF static], of sample_externals sample_world
      "\<lparr>ki_name = ''a'', ki_enforce_private = True\<rparr>" "''{}''"] adm model
  show ?thesis by simp
qed

section \<open>What the operations charge\<close>

text \<open>
  \<open>accounts cs ts st st'\<close>: from \<open>st\<close> to \<open>st'\<close> exactly the usages \<open>cs\<close> were recorded in the ledger and
  exactly the usages \<open>ts\<close> in the token metrics, in that order; the routing table, the keys and the
  configured limits are as before.
\<close>

definition record_all_tokens :: "(string \<times> usage) list \<Rightarrow> metrics \<Rightarrow> metrics" where
  "record_all_tokens cs m = fold (\<lambda>(k, u). record_tokens k u) cs m"

definition accounts ::
  "(string \<times> usage) list \<Rightarrow> (string \<times> usage) list \<Rightarrow> 'g app_state \<Rightarrow> 'g app_state \<Rightarrow> bool" where
  "accounts cs ts st st' \<longleftrightarrow>
     ap_router st' = ap_router st \<and> ap_keys st' = ap_keys st \<and>
     rs_limits (ap_limits st') = rs_limits (ap_limits st) \<and>
     ap_budget st' = budget_records cs (ap_budget st) \<and>
     me_tokens (ap_metrics st') = me_tokens (record_all_tokens ts (ap_metrics st)) \<and>
     (wf_metrics (ap_metrics st) \<longrightarrow> wf_metrics (ap_metrics st'))"

lemma accounts_refl [simp]: "accounts [] [] st st"
  by (simp add: accounts_def budget_records_def record_all_tokens_def)

lemma record_all_tokens_cong:
  "me_tokens m = me_tokens m' \<Longrightarrow> me_tokens (record_all_tokens cs m) = me_tokens (record_all_tokens cs m')"
proof (induction cs arbitrary: m m')
  case (Cons c cs)
  then show ?case
    by (cases c) (simp add: record_all_tokens_def record_tokens_families)
qed (simp add: record_all_tokens_def)

lemma accounts_trans:
  assumes "accounts cs ts st st'" and "accounts ds us st' st''"
  shows "accounts (cs @ ds) (ts @ us) st st''"
  using assms record_all_tokens_cong[of "ap_metrics st'" "record_all_tokens ts (ap_metrics st)" us]
  by (auto simp: accounts_def budget_records_def record_all_tokens_def)

lemma record_tpm_limits [simp]: "rs_limits (snd (record_tpm now k n s)) = rs_limits s"
  by (simp add: record_tpm_eq split_beta Let_def)

text \<open>What one call records in the ledger, and what in the token metrics.\<close>

fun op_charges :: "shared_op \<Rightarrow> (string \<times> usage) list" where
  "op_charges (BudgetRecord key u) = [(key, u)]"
| "op_charges _ = []"

fun op_shown :: "shared_op \<Rightarrow> (string \<times> usage) list" where
  "op_shown (TokenMetrics key u) = [(key, u)]"
| "op_shown _ = []"

lemma accounts_perform: "accounts (op_charges op) (op_shown op) st (perform now op st)"
  by (cases op) (simp_all add: accounts_def budget_records_def record_all_tokens_def wf_metrics_record)

lemma accounts_check: "accounts [] [] st (after_check ex w identity st)"
  by (simp add: accounts_def after_check_def check_rpm_frame budget_records_def record_all_tokens_def)

lemma after_check_frame [simp]:
  "ap_metrics (after_check ex w identity st) = ap_metrics st"
  "ap_budget (after_check ex w identity st) = ap_budget st"
  "ap_router (after_check ex w identity st) = ap_router st"
  "ap_keys (after_check ex w identity st) = ap_keys st"
  by (simp_all add: after_check_def)

text \<open>A usage that was read, as a charge under its key.\<close>

definition charge_of :: "string \<Rightarrow> usage option \<Rightarrow> (string \<times> usage) list" where
  "charge_of key u = (case u of None \<Rightarrow> [] | Some u \<Rightarrow> [(key, u)])"

lemma charge_of_simps [simp]: "charge_of key None = []" "charge_of key (Some u) = [(key, u)]"
  by (simp_all add: charge_of_def)

definition ops_charges :: "shared_op list \<Rightarrow> (string \<times> usage) list" where
  "ops_charges ops = concat (map op_charges ops)"

definition ops_shown :: "shared_op list \<Rightarrow> (string \<times> usage) list" where
  "ops_shown ops = concat (map op_shown ops)"

lemma ops_simps [simp]:
  "ops_charges [] = []" "ops_charges (op # ops) = op_charges op @ ops_charges ops"
  "ops_charges (ops @ ops') = ops_charges ops @ ops_charges ops'"
  "ops_shown [] = []" "ops_shown (op # ops) = op_shown op @ ops_shown ops"
  "ops_shown (ops @ ops') = ops_shown ops @ ops_shown ops'"
  by (simp_all add: ops_charges_def ops_shown_def)

lemma perform_all_simps [simp]:
  "perform_all now [] st = st" "perform_all now (op # ops) st = perform_all now ops (perform now op st)"
  by (simp_all add: perform_all_def)

lemma accounts_perform_all: "accounts (ops_charges ops) (ops_shown ops) st (perform_all now ops st)"
proof (induction ops arbitrary: st)
  case (Cons op ops)
  show ?case using accounts_trans[OF accounts_perform Cons.IH] by simp
qed simp

lemma account_ops_charges:
  "ops_charges (account_ops key u) = [(key, u)]" "ops_shown (account_ops key u) = [(key, u)]"
  by (simp_all add: account_ops_def)

text \<open>A summary and a buffered body are each booked in both places, once, under the key of the request.\<close>

definition summary_charge :: "stream_task \<Rightarrow> relay_summary \<Rightarrow> (string \<times> usage) list" where
  "summary_charge task summary = charge_of (st_key task) (sm_usage summary)"

lemma task_charges:
  "ops_charges (accounting_task task (Some summary)) = summary_charge task summary"
  "ops_shown (accounting_task task (Some summary)) = summary_charge task summary"
  "length (accounting_task task (Some summary)) \<le> 4"
  by (auto simp: accounting_task_def summary_charge_def account_ops_charges account_ops_def
      split: option.split relay_outcome.split)

lemma buffered_charges:
  "ops_charges (snd (buffered_response ex key bk resp)) =
     (case hr_bytes resp of Inl e \<Rightarrow> [] | Inr body \<Rightarrow> charge_of key (body_usage ex body))"
  "ops_shown (snd (buffered_response ex key bk resp)) = ops_charges (snd (buffered_response ex key bk resp))"
  by (auto simp: buffered_response_def Let_def account_ops_charges split: sum.split option.split)

lemma error_pow_frame:
  "me_requests ((record_upstream_error b ^^ n) m) = me_requests m"
  "me_tokens ((record_upstream_error b ^^ n) m) = me_tokens m"
  "wf_metrics m \<Longrightarrow> wf_metrics ((record_upstream_error b ^^ n) m)"
  by (induction n) (simp_all add: wf_metrics_record)

lemma error_pow_count:
  "counter_value (me_upstream_errors ((record_upstream_error b ^^ n) m)) (backend_label b) =
     counter_value (me_upstream_errors m) (backend_label b) + of_nat n"
  by (induction n) (simp_all add: record_upstream_error_def)

text \<open>What the request counter counts: a forwarded request is counted once, as 2xx when a backend
  answered and as 5xx when the retries were exhausted; a request that is rate limited, malformed,
  unroutable or answered with a passed-through client error is not counted at all, although the
  metric is described as the total of requests received.\<close>
theorem request_counter_exact:
  "me_requests (ap_metrics (fst (snd (chat_completions ex w identity body st)))) =
     (if admitted ex w identity st = Inr () \<and> cr_model (client_request ex body) \<noteq> []
      then (case routed ex identity body st of
              Inl e \<Rightarrow> me_requests (ap_metrics st)
            | Inr b \<Rightarrow>
               (case fst (forward_loop ex w b body attempt_numbers None (ap_metrics st)) of
                  GotResponse resp \<Rightarrow>
                    counters_inc (request_label (be_name b) (cr_model (client_request ex body)) ''2xx'')
                      (me_requests (ap_metrics st))
                | PassThrough e \<Rightarrow> me_requests (ap_metrics st)
                | Exhausted e \<Rightarrow>
                    counters_inc (request_label (be_name b) (cr_model (client_request ex body)) ''5xx'')
                      (me_requests (ap_metrics st))))
      else me_requests (ap_metrics st))"
proof (cases rule: chat_cases[where ex = ex and w = w and identity = identity and st = st and body = body])
  case (forwarded b)
  obtain res m tr where loop:
    "forward_loop ex w b body attempt_numbers None (ap_metrics st) = (res, m, tr)" by (metis prod_cases3)
  then have m: "me_requests m = me_requests (ap_metrics st)" by (auto simp: forward_loop_eq error_pow_frame)
  show ?thesis
    using forwarded
    by (cases res)
      (auto simp: chat_forwarded loop respond_def m Let_def buffered_response_def account_ops_def
        split: sum.split option.split)
qed (simp_all add: chat_branches)


text \<open>C37: a backend that stays down: when all six attempts fail to connect or are answered with 429 or a
  status of 500 and above, the client gets 502, the backend has been contacted six times and is charged
  six upstream errors, the request counts once as 5xx, and no token is charged to anybody.\<close>
theorem exhaustion_outcome:
  assumes "admitted ex w identity st = Inr ()" and "cr_model (client_request ex body) \<noteq> []"
    and "routed ex identity body st = Inr b"
    and "list_all (\<lambda>i. case wo_send w i (build_request b ''/v1/chat/completions'' body) of
           Inl e \<Rightarrow> True
         | Inr resp \<Rightarrow> \<not> ex_is_success ex (hr_status resp)
             \<and> (unat (hr_status resp) = 429 \<or> 500 \<le> unat (hr_status resp))) [0, 1, 2, 3, 4, 5]"
  shows "case chat_completions ex w identity body st of (rsp, st', tr) \<Rightarrow>
      rsp_status rsp = 502 \<and> length (sends tr) = 6 \<and> ap_budget st' = ap_budget st
    \<and> me_tokens (ap_metrics st') = me_tokens (ap_metrics st)
    \<and> me_requests (ap_metrics st') =
        counters_inc (request_label (be_name b) (cr_model (client_request ex body)) ''5xx'') (me_requests (ap_metrics st))
    \<and> counter_value (me_upstream_errors (ap_metrics st')) (backend_label (be_name b)) =
        counter_value (me_upstream_errors (ap_metrics st)) (backend_label (be_name b)) + 6"
proof -
  let ?out = "try_attempt ex w b body"
  have nd: "list_all (\<lambda>i. \<not> decisive (?out i)) [0, 1, 2, 3, 4, 5]"
    using assms(4) by (rule list.pred_mono_strong) (auto simp: decisive_answer split: sum.splits)
  have made: "attempts_made ?out attempt_numbers = [0, 1, 2, 3, 4, 5]"
    using nd by (simp add: attempts_list)
  have failed: "list_all (\<lambda>i. failed_attempt (?out i)) [0, 1, 2, 3, 4, 5]"
    using nd by (rule list.pred_mono_strong) (auto simp: failed_attempt_def decisive_def split: sum.splits)
  have res: "loop_result ?out attempt_numbers None = Exhausted (case ?out 5 of Inl e \<Rightarrow> Some e | Inr _ \<Rightarrow> None)"
    using nd by (simp add: loop_result_def attempts_list)
  show ?thesis
    using failed
    by (simp add: chat_forwarded[OF assms(1-3)] forward_loop_eq made res respond_def Let_def
        error_response_def attempt_trace_facts record_request_def error_pow_frame record_upstream_error_def)
qed

definition failing_world :: world where
  "failing_world = sample_world\<lparr>wo_send := (\<lambda>i q. Inl ''connection refused'')\<rparr>"

lemma sample_admitted:
  "admitted sample_externals w identity sample_state = Inr ()"
  "client_request sample_externals body = \<lparr>cr_model = ''m'', cr_stream = False\<rparr>"
  "routed sample_externals \<lparr>ki_name = ''b'', ki_enforce_private = False\<rparr> body sample_state =
     Inr (hd sample_backends)"
  by (simp_all add: admitted_def check_rpm_def rate_limit_for_def sample_state_def rate_store_new_def
      rate_unlimited_def client_request_def sample_externals_def routed_def route_eq with_policy_def
      new_query_def sample_backends_eq eligible_def select_def static_choose_def)

lemma exhaustion_outcome_witness:
  "rsp_status (fst (chat_completions sample_externals failing_world
     \<lparr>ki_name = ''b'', ki_enforce_private = False\<rparr> ''{}'' sample_state)) = 502"
proof -
  have "list_all (\<lambda>i. case wo_send failing_world i (build_request (hd sample_backends) ''/v1/chat/completions'' ''{}'') of
      Inl e \<Rightarrow> True
    | Inr resp \<Rightarrow> \<not> ex_is_success sample_externals (hr_status resp)
        \<and> (unat (hr_status resp) = 429 \<or> 500 \<le> unat (hr_status resp))) [0, 1, 2, 3, 4, 5]"
    by (simp add: failing_world_def)
  from exhaustion_outcome[OF sample_admitted(1) _ sample_admitted(3) this] show ?thesis
    by (simp add: sample_admitted(2) split_beta)
qed

text \<open>C38: a client error from the backend (an answer that is no success, with a status below 500 other than
  429) is passed through at once: one upstream request, no wait, the upstream's own status in the
  response, one upstream error, and nothing charged or counted as a request.\<close>
theorem client_error_passes_through:
  assumes "admitted ex w identity st = Inr ()" and "cr_model (client_request ex body) \<noteq> []"
    and "routed ex identity body st = Inr b"
    and "wo_send w 0 (build_request b ''/v1/chat/completions'' body) = Inr resp"
    and "\<not> ex_is_success ex (hr_status resp)" and "unat (hr_status resp) < 500" and "unat (hr_status resp) \<noteq> 429"
    and "ex_status_from_u16 ex (hr_status resp) = Some (hr_status resp)"
  shows "case chat_completions ex w identity body st of (rsp, st', tr) \<Rightarrow>
      rsp_status rsp = hr_status resp \<and> length (sends tr) = 1 \<and> waited tr = 0
    \<and> ap_budget st' = ap_budget st \<and> me_requests (ap_metrics st') = me_requests (ap_metrics st)
    \<and> counter_value (me_upstream_errors (ap_metrics st')) (backend_label (be_name b)) =
        counter_value (me_upstream_errors (ap_metrics st)) (backend_label (be_name b)) + 1"
proof -
  have d: "decisive (try_attempt ex w b body 0)" using assms(4-7) by (simp add: decisive_answer)
  obtain quoted where e: "try_attempt ex w b body 0 = Inl (BadStatus (be_name b) (hr_status resp) quoted)"
    using assms(4,5) by (simp add: try_attempt_def open_sse_def Let_def)
  have made: "attempts_made (try_attempt ex w b body) attempt_numbers = [0]" using d by (simp add: attempts_list)
  have res: "loop_result (try_attempt ex w b body) attempt_numbers None =
      PassThrough (BadStatus (be_name b) (hr_status resp) quoted)"
    using d e by (simp add: loop_result_def attempts_list)
  show ?thesis
    using assms(8) e attempt_trace_facts[of w b body 0]
    by (simp add: chat_forwarded[OF assms(1-3)] forward_loop_eq made res respond_def Let_def failed_attempt_def
        error_response_def upstream_status_def record_upstream_error_def)
qed

definition refusing_world :: world where
  "refusing_world = sample_world\<lparr>wo_send := (\<lambda>i q. Inr \<lparr>hr_status = 404, hr_content_type = None,
     hr_text = Some ''no such model'', hr_bytes = Inl ''closed''\<rparr>)\<rparr>"

lemma client_error_passes_through_witness:
  "rsp_status (fst (chat_completions sample_externals refusing_world
     \<lparr>ki_name = ''b'', ki_enforce_private = False\<rparr> ''{}'' sample_state)) = 404"
proof -
  let ?resp = "\<lparr>hr_status = 404, hr_content_type = None, hr_text = Some ''no such model'', hr_bytes = Inl ''closed''\<rparr>"
  have model: "cr_model (client_request sample_externals ''{}'') \<noteq> []" by (simp add: sample_admitted(2))
  have "wo_send refusing_world 0 q = Inr ?resp" for q by (simp add: refusing_world_def)
  note p = client_error_passes_through[OF sample_admitted(1) model sample_admitted(3) this]
  have "\<not> ex_is_success sample_externals (hr_status ?resp)"
    by (simp add: sample_externals_def word_less_nat_alt)
  moreover have "ex_status_from_u16 sample_externals (hr_status ?resp) = Some (hr_status ?resp)"
    by (simp add: sample_externals_def)
  ultimately show ?thesis using p by (simp add: split_beta)
qed

end
