(* ===== verification/Requests.thy ===== *)
theory Requests
  imports Server
begin

text \<open>
  \<open>chat_completions\<close> of \<open>src/server.rs\<close> cut at its await points.  A task is the position of one request,
  with the local variables that live across the wait; it moves when the event it waits for happens, and
  only then.  The event carries what the outside world produced: there is no time limit on an upstream's
  answer (the client of \<open>upstream.rs\<close> only limits the time to connect, and a connection that times out is
  an answer: an error), so a task whose event never happens waits for ever.  A turn of a task gives the
  calls on the shared state that the code makes before its next await, in order; they are performed one at a
  time (theory \<open>Interleaving\<close>), with other requests in between.
\<close>

section \<open>Tasks\<close>

record chat_call =
  ca_identity :: key_identity
  ca_body :: bytes
  ca_request :: completion_request
  ca_backend :: backend

text \<open>
  \<open>Sleeping\<close> waits for the timer before an attempt, \<open>Opening\<close> for the upstream's answer to an attempt
  that is under way, \<open>ReadingError\<close> for the text of an answer that is no success, \<open>ReadingBody\<close> for the
  rest of a buffered response.  Of a response that has been answered only status and content type are
  known.
\<close>

datatype chat_task =
    Sleeping chat_call nat u64
  | Opening chat_call nat
  | ReadingError chat_call nat http_response
  | ReadingBody chat_call http_response
  | Replied "stream_task response"

datatype wake =
    TimerFired
  | Answered "string + http_response"
  | TextRead "string option"
  | BodyRead "string + bytes"

text \<open>The clocks a turn may look at: the hash that is the noise of the jitter, and the monotonic clock.\<close>

record moment =
  mo_noise :: u64
  mo_instant :: nat

definition send_event :: "chat_call \<Rightarrow> net_event" where
  "send_event c = Sent (ca_backend c) (build_request (ca_backend c) ''/v1/chat/completions'' (ca_body c))"

text \<open>
  From the arrival of the request to the first await: the task, the state after the rate check (one
  operation of the limiter), the calls still to make, and the network traffic.
\<close>

definition begin_chat ::
  "'g externals \<Rightarrow> nat \<Rightarrow> key_identity \<Rightarrow> bytes \<Rightarrow> 'g app_state
     \<Rightarrow> chat_task \<times> 'g app_state \<times> shared_op list \<times> net_event list" where
  "begin_chat ex clock identity body st =
     (case check_rpm (ex_check_key ex) clock (ki_name identity) (ap_limits st) of
        (Inl e, limits) \<Rightarrow>
          (Replied (error_response status_too_many_requests ''rate_limit_exceeded'' (show_limit_exceeded e)),
           st\<lparr>ap_limits := limits\<rparr>, [LimitRejection (ki_name identity)], [])
      | (Inr _, limits) \<Rightarrow>
          (let st0 = st\<lparr>ap_limits := limits\<rparr>;
               req = (case ex_parse_request ex body of None \<Rightarrow> default_request | Some r \<Rightarrow> r)
           in if cr_model req = []
              then (Replied (error_response status_bad_request ''invalid_request_error''
                      ''field `model` is required''), st0, [], [])
              else (case route (ap_router st) (new_query (cr_model req)) (ki_enforce_private identity) of
                      Inl e \<Rightarrow>
                        (Replied (error_response status_bad_gateway ''no_eligible_backend''
                           (show_route_error (ex_debug_str ex) e)), st0, [], [])
                    | Inr backend \<Rightarrow>
                        (let c = \<lparr>ca_identity = identity, ca_body = body,
                                  ca_request = req, ca_backend = backend\<rparr>
                         in (Opening c 0, st0, [], [send_event c])))))"

text \<open>The end of the handler, once the outcome of the loop is known.\<close>

definition finish_chat ::
  "'g externals \<Rightarrow> moment \<Rightarrow> chat_call \<Rightarrow> forwarded \<Rightarrow> chat_task \<times> shared_op list" where
  "finish_chat ex m c res =
     (case respond ex (mo_instant m) (ki_name (ca_identity c)) (ca_backend c) (ca_request c) res of
        (rsp, ops) \<Rightarrow> (Replied rsp, ops))"

text \<open>The error branch of the loop: pass the error on, sleep before the next attempt, or give up.\<close>

definition attempt_failed ::
  "'g externals \<Rightarrow> moment \<Rightarrow> chat_call \<Rightarrow> nat \<Rightarrow> upstream_error \<Rightarrow> chat_task \<times> shared_op list" where
  "attempt_failed ex m c attempt e =
     (case (if \<not> is_retryable e then finish_chat ex m c (PassThrough e)
            else if attempt < max_retries
                 then (Sleeping c (Suc attempt) (jitter (mo_noise m) (backoff_ms attempt)), [])
                 else finish_chat ex m c (Exhausted (Some e))) of
        (t, ops) \<Rightarrow> (t, UpstreamErrorMetric (be_name (ca_backend c)) # ops))"

text \<open>
  One turn of a task, from the await it is woken at to the next one.  No result: the event is not the one
  the task waits for.
\<close>

fun chat_step ::
  "'g externals \<Rightarrow> moment \<Rightarrow> wake \<Rightarrow> chat_task \<Rightarrow> (chat_task \<times> shared_op list \<times> net_event list) option" where
  "chat_step ex m TimerFired (Sleeping c attempt ms) =
     Some (Opening c attempt, [], [Slept ms, send_event c])"
| "chat_step ex m (Answered answer) (Opening c attempt) =
     Some (case answer of
        Inl e \<Rightarrow> (case attempt_failed ex m c attempt (Http e) of (t, ops) \<Rightarrow> (t, ops, []))
      | Inr resp \<Rightarrow>
          if \<not> ex_is_success ex (hr_status resp) then (ReadingError c attempt resp, [], [])
          else if cr_stream (ca_request c)
               then (case finish_chat ex m c (GotResponse resp) of (t, ops) \<Rightarrow> (t, ops, []))
               else (ReadingBody c resp, [RequestMetric (be_name (ca_backend c)) (cr_model (ca_request c)) ''2xx''], []))"
| "chat_step ex m (TextRead body) (ReadingError c attempt resp) =
     Some (case attempt_failed ex m c attempt (BadStatus (be_name (ca_backend c)) (hr_status resp)
                  (take_chars 2048 (case body of None \<Rightarrow> [] | Some b \<Rightarrow> b))) of (t, ops) \<Rightarrow> (t, ops, []))"
| "chat_step ex m (BodyRead body) (ReadingBody c resp) =
     Some (case buffered_response ex (ki_name (ca_identity c)) (be_name (ca_backend c)) (resp\<lparr>hr_bytes := body\<rparr>) of
        (rsp, ops) \<Rightarrow> (Replied rsp, ops, []))"
| "chat_step ex m _ _ = None"

fun task_call :: "chat_task \<Rightarrow> chat_call option" where
  "task_call (Sleeping c attempt ms) = Some c"
| "task_call (Opening c attempt) = Some c"
| "task_call (ReadingError c attempt resp) = Some c"
| "task_call (ReadingBody c resp) = Some c"
| "task_call (Replied rsp) = None"

fun awaits :: "chat_task \<Rightarrow> wake \<Rightarrow> bool" where
  "awaits (Sleeping c attempt ms) TimerFired = True"
| "awaits (Opening c attempt) (Answered answer) = True"
| "awaits (ReadingError c attempt resp) (TextRead body) = True"
| "awaits (ReadingBody c resp) (BodyRead body) = True"
| "awaits _ _ = False"

lemma chat_step_awaits: "chat_step ex m wk t = None \<longleftrightarrow> \<not> awaits t wk"
  by (cases t; cases wk) auto

section \<open>A task alone is the handler\<close>

text \<open>What a \<open>world\<close>, in which every answer comes, wakes a task with.\<close>

fun world_wake :: "world \<Rightarrow> chat_task \<Rightarrow> wake" where
  "world_wake w (Opening c attempt) =
     Answered (wo_send w attempt (build_request (ca_backend c) ''/v1/chat/completions'' (ca_body c)))"
| "world_wake w (ReadingError c attempt resp) = TextRead (hr_text resp)"
| "world_wake w (ReadingBody c resp) = BodyRead (hr_bytes resp)"
| "world_wake w _ = TimerFired"

fun world_moment :: "world \<Rightarrow> chat_task \<Rightarrow> moment" where
  "world_moment w (Opening c attempt) = \<lparr>mo_noise = wo_noise w (Suc attempt), mo_instant = wo_start w\<rparr>"
| "world_moment w (ReadingError c attempt resp) = \<lparr>mo_noise = wo_noise w (Suc attempt), mo_instant = wo_start w\<rparr>"
| "world_moment w _ = \<lparr>mo_noise = 0, mo_instant = wo_start w\<rparr>"

fun run_chat ::
  "'g externals \<Rightarrow> world \<Rightarrow> nat \<Rightarrow> chat_task \<times> 'g app_state \<times> net_event list
     \<Rightarrow> chat_task \<times> 'g app_state \<times> net_event list" where
  "run_chat ex w 0 x = x"
| "run_chat ex w (Suc n) (t, st, tr) =
     (case chat_step ex (world_moment w t) (world_wake w t) t of
        None \<Rightarrow> (t, st, tr)
      | Some (t', ops, tr') \<Rightarrow> run_chat ex w n (t', perform_all (wo_now w) ops st, tr @ tr'))"

lemma run_chat_replied [simp]: "run_chat ex w n (Replied rsp, st, tr) = (Replied rsp, st, tr)"
  by (cases n) simp_all

lemma attempts_from: "i \<le> max_retries \<Longrightarrow> [i ..< Suc max_retries] = i # [Suc i ..< Suc max_retries]"
  by (rule upt_conv_Cons) simp

definition loop_reply ::
  "'g externals \<Rightarrow> world \<Rightarrow> chat_call \<Rightarrow> nat list \<Rightarrow> upstream_error option \<Rightarrow> 'g app_state \<Rightarrow> net_event list
     \<Rightarrow> chat_task \<times> 'g app_state \<times> net_event list" where
  "loop_reply ex w c attempts le st tr =
     (case forward_loop ex w (ca_backend c) (ca_body c) attempts le (ap_metrics st) of
        (res, m, tr') \<Rightarrow>
          (case respond ex (wo_start w) (ki_name (ca_identity c)) (ca_backend c) (ca_request c) res of
             (rsp, ops) \<Rightarrow> (Replied rsp, perform_all (wo_now w) ops (st\<lparr>ap_metrics := m\<rparr>), tr @ tr')))"

lemma attempt_trace_events:
  "attempt_trace w (ca_backend c) (ca_body c) 0 = [send_event c]"
  "attempt_trace w (ca_backend c) (ca_body c) (Suc i) = [Slept (jitter (wo_noise w (Suc i)) (backoff_ms i)), send_event c]"
  by (simp_all add: attempt_trace_def send_event_def)

text \<open>An attempt that is answered, from the two sides.\<close>

lemma run_got_response:
  assumes "try_attempt ex w (ca_backend c) (ca_body c) i = Inr resp" and "2 \<le> n"
  shows "run_chat ex w n (Opening c i, st, tr) =
    (case respond ex (wo_start w) (ki_name (ca_identity c)) (ca_backend c) (ca_request c) (GotResponse resp) of
       (rsp, ops) \<Rightarrow> (Replied rsp, perform_all (wo_now w) ops st, tr))"
proof -
  obtain k where n: "n = Suc (Suc k)" using assms(2) by (metis Suc_le_D Suc_le_mono numeral_2_eq_2)
  have "wo_send w i (build_request (ca_backend c) ''/v1/chat/completions'' (ca_body c)) = Inr resp"
    "ex_is_success ex (hr_status resp)"
    using assms(1) by (auto simp: try_attempt_def open_sse_def Let_def split: sum.splits if_splits)
  then show ?thesis by (simp add: n finish_chat_def respond_def Let_def split_beta)
qed

lemma run_failed:
  assumes "try_attempt ex w (ca_backend c) (ca_body c) i = Inl e"
  shows "\<exists>k \<in> {1, 2}. \<forall>n. run_chat ex w (k + n) (Opening c i, st, tr) =
    (case attempt_failed ex \<lparr>mo_noise = wo_noise w (Suc i), mo_instant = wo_start w\<rparr> c i e of
       (t, ops) \<Rightarrow> run_chat ex w n (t, perform_all (wo_now w) ops st, tr))"
proof (cases "wo_send w i (build_request (ca_backend c) ''/v1/chat/completions'' (ca_body c))")
  case (Inl m)
  then have "e = Http m" using assms by (simp add: try_attempt_def open_sse_def)
  then show ?thesis by (intro bexI[of _ 1]) (simp_all add: Inl split_beta)
next
  case (Inr resp)
  then have "\<not> ex_is_success ex (hr_status resp)" and
    "e = BadStatus (be_name (ca_backend c)) (hr_status resp)
      (take_chars 2048 (case hr_text resp of None \<Rightarrow> [] | Some b \<Rightarrow> b))"
    using assms by (auto simp: try_attempt_def open_sse_def Let_def split: if_splits)
  then show ?thesis by (intro bexI[of _ 2]) (simp_all add: Inr split_beta numeral_2_eq_2)
qed

text \<open>From an attempt under way to the reply, a task does what is left of the retry loop.\<close>

lemma run_opening:
  assumes "i \<le> max_retries" and "3 * (max_retries - i) + 2 \<le> n"
  shows "run_chat ex w n (Opening c i, st, tr @ attempt_trace w (ca_backend c) (ca_body c) i) =
    loop_reply ex w c [i ..< Suc max_retries] le st tr"
  using assms
proof (induction "max_retries - i" arbitrary: i le st tr n rule: less_induct)
  case less
  let ?out = "try_attempt ex w (ca_backend c) (ca_body c) i"
  let ?tr = "tr @ attempt_trace w (ca_backend c) (ca_body c) i"
  let ?st = "st\<lparr>ap_metrics := record_upstream_error (be_name (ca_backend c)) (ap_metrics st)\<rparr>"
  note loop = loop_reply_def attempts_from[OF less.prems(1)]
  show ?case
  proof (cases ?out)
    case (Inr resp)
    have "2 \<le> n" using less.prems(2) by simp
    from run_got_response[OF Inr this] show ?thesis by (simp add: loop Inr split_beta del: upt_Suc)
  next
    case (Inl e)
    obtain k n' where k: "k \<le> 2" "n = k + n'"
      "run_chat ex w n (Opening c i, st, ?tr) =
        (case attempt_failed ex \<lparr>mo_noise = wo_noise w (Suc i), mo_instant = wo_start w\<rparr> c i e of
           (t, ops) \<Rightarrow> run_chat ex w n' (t, perform_all (wo_now w) ops st, ?tr))"
    proof -
      obtain k where k: "k \<in> {1, 2}" "\<forall>n. run_chat ex w (k + n) (Opening c i, st, ?tr) =
        (case attempt_failed ex \<lparr>mo_noise = wo_noise w (Suc i), mo_instant = wo_start w\<rparr> c i e of
           (t, ops) \<Rightarrow> run_chat ex w n (t, perform_all (wo_now w) ops st, ?tr))"
        using run_failed[OF Inl] by blast
      have le: "k \<le> 2" "k \<le> n" using k(1) less.prems(2) by auto
      show thesis
        by (rule that[of k "n - k"]) (use le k(2)[rule_format, of "n - k"] in \<open>simp_all del: run_chat.simps\<close>)
    qed
    show ?thesis
    proof (cases "is_retryable e \<and> i < max_retries")
      case True
      have n': "n' = Suc (n' - 1)" "3 * (max_retries - Suc i) + 2 \<le> n' - 1" using True less.prems(2) k(1,2) by linarith+
      have "run_chat ex w n (Opening c i, st, ?tr) =
          run_chat ex w (Suc (n' - 1)) (Sleeping c (Suc i) (jitter (wo_noise w (Suc i)) (backoff_ms i)), ?st, ?tr)"
        unfolding k(3) n'(1)[symmetric] using True by (simp add: attempt_failed_def)
      also have "\<dots> = run_chat ex w (n' - 1)
          (Opening c (Suc i), ?st, ?tr @ attempt_trace w (ca_backend c) (ca_body c) (Suc i))"
        by (simp add: attempt_trace_events)
      also have "\<dots> = loop_reply ex w c [Suc i ..< Suc max_retries] (Some e) ?st ?tr"
        using True n'(2) by (intro less.hyps diff_less_mono2) simp_all
      finally show ?thesis
        using True by (simp add: loop Inl Let_def split_beta del: upt_Suc)
    next
      case False
      then consider "\<not> is_retryable e" | "is_retryable e" "\<not> i < max_retries" by blast
      then show ?thesis
      proof cases
        case 1
        then show ?thesis unfolding k(3)
          by (simp add: attempt_failed_def finish_chat_def split_beta loop Inl Let_def del: upt_Suc)
      next
        case 2
        then have "[Suc i ..< Suc max_retries] = []" by simp
        with 2 show ?thesis unfolding k(3)
          by (simp add: attempt_failed_def finish_chat_def split_beta loop Inl Let_def del: upt_Suc)
      qed
    qed
  qed
qed

lemma begin_forwarded:
  assumes "admitted ex w identity st = Inr ()" and "cr_model (client_request ex body) \<noteq> []"
    and "routed ex identity body st = Inr backend"
  shows "begin_chat ex (wo_instant w) identity body st =
    (let c = \<lparr>ca_identity = identity, ca_body = body,
              ca_request = client_request ex body, ca_backend = backend\<rparr>
     in (Opening c 0, after_check ex w identity st, [], [send_event c]))"
  using assms
  by (auto simp: begin_chat_def admitted_def after_check_def client_request_def routed_def Let_def
      split: prod.splits)

lemma begin_replied:
  assumes "\<not> (admitted ex w identity st = Inr () \<and> cr_model (client_request ex body) \<noteq> []
    \<and> (\<exists>backend. routed ex identity body st = Inr backend))"
  shows "\<exists>rsp ops. begin_chat ex (wo_instant w) identity body st = (Replied rsp, after_check ex w identity st, ops, [])
    \<and> ops_charges ops = [] \<and> ops_shown ops = [] \<and> (\<forall>s. rsp_body rsp \<noteq> StreamBody s)
    \<and> (\<forall>now. chat_completions ex w identity body st = (rsp, perform_all now ops (after_check ex w identity st), []))"
  using assms
  by (cases rule: chat_cases[where ex = ex and w = w and identity = identity and st = st and body = body];
      auto simp: begin_chat_def chat_branches admitted_def after_check_def client_request_def routed_def Let_def
        error_response_def split: prod.splits)

text \<open>
  The cut at the await points is faithful: in a world that answers, a request whose turns are not
  interleaved with anything else is the uninterrupted handler of theory \<open>Server\<close>.
\<close>

lemma turns_equal_handler:
  assumes "begin_chat ex (wo_instant w) identity body st = (t, st0, ops, tr)"
  shows "run_chat ex w 17 (t, perform_all (wo_now w) ops st0, tr) =
     (case chat_completions ex w identity body st of (rsp, st', tr) \<Rightarrow> (Replied rsp, st', tr))"
proof (cases "admitted ex w identity st = Inr () \<and> cr_model (client_request ex body) \<noteq> []
    \<and> (\<exists>backend. routed ex identity body st = Inr backend)")
  case True
  then obtain backend where r: "admitted ex w identity st = Inr ()" "cr_model (client_request ex body) \<noteq> []"
    "routed ex identity body st = Inr backend" by blast
  let ?c = "\<lparr>ca_identity = identity, ca_body = body,
             ca_request = client_request ex body, ca_backend = backend\<rparr>"
  have "run_chat ex w 17 (Opening ?c 0, after_check ex w identity st, [] @ [send_event ?c]) =
      loop_reply ex w ?c [0 ..< Suc max_retries] None (after_check ex w identity st) []"
    using run_opening[of 0 17 ex w ?c "after_check ex w identity st" "[]" None]
    unfolding attempt_trace_events(1) by (simp add: max_retries_def del: upt_Suc run_chat.simps)
  moreover have "t = Opening ?c 0" "st0 = after_check ex w identity st" "ops = []" "tr = [send_event ?c]"
    using begin_forwarded[OF r] assms by (simp_all add: Let_def)
  ultimately show ?thesis
    by (simp add: chat_forwarded[OF r] loop_reply_def attempt_numbers_def split_beta del: upt_Suc run_chat.simps)
next
  case False
  from begin_replied[OF this] assms obtain rsp where "t = Replied rsp" "tr = []"
    "chat_completions ex w identity body st = (rsp, perform_all (wo_now w) ops st0, [])" by auto
  then show ?thesis by (simp del: run_chat.simps)
qed

section \<open>How often a request waits\<close>

fun turns_left :: "chat_task \<Rightarrow> nat" where
  "turns_left (Opening c attempt) = 3 * (max_retries - attempt) + 2"
| "turns_left (ReadingError c attempt resp) = 3 * (max_retries - attempt) + 1"
| "turns_left (Sleeping c attempt ms) = 3 * (max_retries - attempt) + 3"
| "turns_left (ReadingBody c resp) = 1"
| "turns_left (Replied rsp) = 0"

lemma attempt_failed_turns:
  "attempt_failed ex m c attempt e = (t, ops) \<Longrightarrow> turns_left t \<le> 3 * (max_retries - attempt)"
  by (auto simp: attempt_failed_def finish_chat_def split: if_splits prod.splits)

lemma chat_step_progress:
  assumes "chat_step ex m wk t = Some (t', ops, tr)"
  shows "turns_left t' < turns_left t"
  using assms
  by (cases t; cases wk)
    (auto simp: finish_chat_def dest!: attempt_failed_turns split: sum.splits if_splits prod.splits)




text \<open>Every task that has not replied moves when its event happens, and runs down (contract \<open>progressing\<close>).\<close>

definition turn :: "'g externals \<Rightarrow> chat_task \<Rightarrow> chat_task \<Rightarrow> bool" where
  "turn ex t t' \<longleftrightarrow> (\<exists>m wk ops tr. chat_step ex m wk t = Some (t', ops, tr))"

text \<open>One event of the kind that a task waits for.\<close>

fun some_wake :: "chat_task \<Rightarrow> wake" where
  "some_wake (Opening c attempt) = Answered (Inl [])"
| "some_wake (ReadingError c attempt resp) = TextRead None"
| "some_wake (ReadingBody c resp) = BodyRead (Inl [])"
| "some_wake _ = TimerFired"

lemma awaited: "task_call t \<noteq> None \<Longrightarrow> awaits t (some_wake t)" "task_call t = None \<Longrightarrow> \<not> awaits t wk"
  by (cases t; simp)+

interpretation turns: progressing "turn ex" "\<lambda>t. task_call t = None" turns_left for ex :: "'g externals"
proof unfold_locales
  show "turns_left t' < turns_left t" if "turn ex t t'" for t t'
    using that chat_step_progress unfolding turn_def by blast
  show "\<exists>t'. turn ex t t'" if w: "task_call t \<noteq> None" for t
  proof -
    have "chat_step ex \<lparr>mo_noise = 0, mo_instant = 0\<rparr> (some_wake t) t \<noteq> None"
      using awaited(1)[OF w] chat_step_awaits by blast
    then obtain t' ops tr where "chat_step ex \<lparr>mo_noise = 0, mo_instant = 0\<rparr> (some_wake t) t = Some (t', ops, tr)"
      by (auto simp del: chat_step.simps)
    then show ?thesis unfolding turn_def by blast
  qed
qed








end
