(* ===== verification/Gateway.thy ===== *)
theory Gateway
  imports Requests "HOL-Library.Sublist"
begin

text \<open>
  What happens to a streamed response after its handler has returned: its client polls the relay or lets go
  of it, and the task spawned by \<open>stream_response\<close> receives the summary and makes its calls on the shared
  state, one at a time.  The labels of the steps of a run (here and in theory \<open>Interleaving\<close>) show which event
  woke a request, which call was performed, and what a poll gave to a client.
\<close>

section \<open>The step relation\<close>

text \<open>
  \<open>lv_booking\<close> is the accounting task: \<open>None\<close> while it waits for the summary, then the calls it still
  has to make.
\<close>

record live_stream =
  lv_task :: stream_task
  lv_dropped :: bool
  lv_booking :: "shared_op list option"

record 'g gateway =
  gw_app :: "'g app_state"
  gw_streams :: "live_stream list"

definition opened :: "stream_task response \<Rightarrow> live_stream list" where
  "opened rsp = (case rsp_body rsp of
     StreamBody task \<Rightarrow> [\<lparr>lv_task = task, lv_dropped = False, lv_booking = None\<rparr>]
   | _ \<Rightarrow> [])"

definition with_relay :: "relay \<Rightarrow> live_stream \<Rightarrow> live_stream" where
  "with_relay r s = s\<lparr>lv_task := (lv_task s)\<lparr>st_relay := r\<rparr>\<rparr>"

abbreviation "relay_of s \<equiv> st_relay (lv_task s)"

text \<open>What the libraries and the network are, fixed for a whole run.\<close>

record 'g environment =
  en_externals :: "'g externals"
  en_to_str :: "bytes \<Rightarrow> string option"
  en_hash_order :: "string set \<Rightarrow> string list"
  en_parse_env :: "bytes \<Rightarrow> usage option option"
  en_timer :: "nat \<Rightarrow> nat \<Rightarrow> bool"

datatype step_label =
    Quiet
  | Woken key_identity wake
  | Performed shared_op
  | Booked nat shared_op
  | Polled nat relay_poll

inductive stream_step ::
  "'g environment \<Rightarrow> 'g gateway \<Rightarrow> step_label \<Rightarrow> 'g gateway \<Rightarrow> bool" for en where
  poll:
    "i < length (gw_streams g) \<Longrightarrow> gw_streams g ! i = s \<Longrightarrow> \<not> lv_dropped s
     \<Longrightarrow> stream_step en g (Polled i (fst (poll_next (en_parse_env en) (en_timer en) up now (relay_of s))))
           (g\<lparr>gw_streams := (gw_streams g)[i :=
              with_relay (snd (poll_next (en_parse_env en) (en_timer en) up now (relay_of s))) s]\<rparr>)"
| drop:
    "i < length (gw_streams g) \<Longrightarrow> gw_streams g ! i = s \<Longrightarrow> \<not> lv_dropped s
     \<Longrightarrow> stream_step en g Quiet
           (g\<lparr>gw_streams := (gw_streams g)[i := (with_relay (relay_drop (relay_of s)) s)\<lparr>lv_dropped := True\<rparr>]\<rparr>)"
| summarise:
    "i < length (gw_streams g) \<Longrightarrow> gw_streams g ! i = s \<Longrightarrow> lv_booking s = None
     \<Longrightarrow> ry_sent (relay_of s) = summary # rest
     \<Longrightarrow> stream_step en g Quiet
           (g\<lparr>gw_streams := (gw_streams g)[i := s\<lparr>lv_booking := Some (accounting_task (lv_task s) (Some summary))\<rparr>]\<rparr>)"
| book:
    "i < length (gw_streams g) \<Longrightarrow> gw_streams g ! i = s \<Longrightarrow> lv_booking s = Some (op # ops)
     \<Longrightarrow> stream_step en g (Booked i op)
           (g\<lparr>gw_app := perform now op (gw_app g), gw_streams := (gw_streams g)[i := s\<lparr>lv_booking := Some ops\<rparr>]\<rparr>)"

text \<open>The calls of a step, and the usages they record in the ledger and in the token metrics.\<close>

fun label_ops :: "step_label \<Rightarrow> shared_op list" where
  "label_ops (Performed op) = [op]"
| "label_ops (Booked i op) = [op]"
| "label_ops _ = []"

fun stream_charges :: "step_label \<Rightarrow> (string \<times> usage) list" where
  "stream_charges (Booked i op) = op_charges op"
| "stream_charges _ = []"

fun request_charges :: "step_label \<Rightarrow> (string \<times> usage) list" where
  "request_charges (Performed op) = op_charges op"
| "request_charges _ = []"

definition all_charges :: "step_label list \<Rightarrow> (string \<times> usage) list" where
  "all_charges ls = ops_charges (concat (map label_ops ls))"

definition all_shown :: "step_label list \<Rightarrow> (string \<times> usage) list" where
  "all_shown ls = ops_shown (concat (map label_ops ls))"

lemma all_charges_simps [simp]:
  "all_charges [] = []" "all_charges (ls @ [l]) = all_charges ls @ ops_charges (label_ops l)"
  "all_shown [] = []" "all_shown (ls @ [l]) = all_shown ls @ ops_shown (label_ops l)"
  by (simp_all add: all_charges_def all_shown_def)

lemma charges_split: "mset (all_charges ls) =
    mset (concat (map request_charges ls)) + mset (concat (map stream_charges ls))"
proof (induction ls rule: rev_induct)
  case (snoc l ls)
  then show ?case by (cases l) simp_all
qed simp

definition booted :: "'g app_state \<Rightarrow> 'g gateway" where
  "booted st = \<lparr>gw_app = st, gw_streams = []\<rparr>"

section \<open>Invariants\<close>

lemma stream_step_accounts:
  "stream_step en g l g' \<Longrightarrow>
     accounts (ops_charges (label_ops l)) (ops_shown (label_ops l)) (gw_app g) (gw_app g')"
  by (induction rule: stream_step.induct) (simp_all add: accounts_perform)

text \<open>The channel of a relay: full exactly when the sender is gone, and never holding two summaries.\<close>

definition channel_ok :: "relay \<Rightarrow> bool" where
  "channel_ok r \<longleftrightarrow> (if ry_reporter r then ry_sent r = [] else length (ry_sent r) = 1)"

text \<open>
  An accounting task that has begun holds a rest of the calls for the one summary that the relay sent.
\<close>

definition stream_ok :: "live_stream \<Rightarrow> bool" where
  "stream_ok s \<longleftrightarrow> channel_ok (relay_of s) \<and> (lv_dropped s \<longrightarrow> \<not> ry_reporter (relay_of s)) \<and>
     (\<forall>ops. lv_booking s = Some ops \<longrightarrow> \<not> ry_reporter (relay_of s) \<and>
        suffix ops (accounting_task (lv_task s) (Some (hd (ry_sent (relay_of s))))))"

lemma channel_report: "channel_ok r \<Longrightarrow> channel_ok (report oc (r\<lparr>ry_finished := b\<rparr>))"
  by (auto simp: channel_ok_def report_def)

lemma channel_poll: "channel_ok r \<Longrightarrow> channel_ok (snd (poll_next p timer up now r))"
  by (auto simp: poll_next_def channel_report split: upstream_poll.split)
     (auto simp: channel_ok_def)

lemma channel_drop: "channel_ok r \<Longrightarrow> channel_ok (relay_drop r)"
  by (auto simp: channel_ok_def relay_drop_def report_def)

lemma poll_reported:
  "\<not> ry_reporter r \<Longrightarrow> \<not> ry_reporter (snd (poll_next p timer up now r))"
  by (auto simp: poll_next_def report_def split: upstream_poll.split)

lemma poll_sent:
  "\<not> ry_reporter r \<Longrightarrow> ry_sent (snd (poll_next p timer up now r)) = ry_sent r"
  "\<not> ry_reporter r \<Longrightarrow> ry_sent (relay_drop r) = ry_sent r"
  by (auto simp: poll_next_def report_def relay_drop_def split: upstream_poll.split)

lemma with_relay_simps [simp]:
  "relay_of (with_relay r s) = r" "lv_dropped (with_relay r s) = lv_dropped s"
  "lv_booking (with_relay r s) = lv_booking s" "st_key (lv_task (with_relay r s)) = st_key (lv_task s)"
  "accounting_task (lv_task (with_relay r s)) received = accounting_task (lv_task s) received"
  by (simp_all add: with_relay_def accounting_task_def split: option.split relay_outcome.split)

lemma opened_ok:
  "s \<in> set (opened rsp) \<Longrightarrow> rsp_body rsp = StreamBody (lv_task s) \<and> \<not> lv_dropped s \<and> lv_booking s = None"
  by (auto simp: opened_def split: body.splits)

lemma all_set_update: "\<forall>x \<in> set xs. P x \<Longrightarrow> P y \<Longrightarrow> \<forall>x \<in> set (xs[i := y]). P x"
  using set_update_subset_insert[of xs i y] by blast

lemma stream_ok_relay:
  assumes "stream_ok s" and "channel_ok r" and "\<not> ry_reporter (relay_of s) \<Longrightarrow> \<not> ry_reporter r \<and> ry_sent r = ry_sent (relay_of s)"
  shows "stream_ok (with_relay r s)" "\<not> ry_reporter r \<Longrightarrow> stream_ok ((with_relay r s)\<lparr>lv_dropped := True\<rparr>)"
  using assms by (auto simp: stream_ok_def)

lemma stream_step_streams_ok:
  assumes "stream_step en g l g'" and "\<forall>s \<in> set (gw_streams g). stream_ok s"
  shows "\<forall>s \<in> set (gw_streams g'). stream_ok s"
  using assms
proof (induction rule: stream_step.induct)
  case (poll i g s up now)
  then have s: "stream_ok s" by auto
  then have "channel_ok (relay_of s)" by (simp add: stream_ok_def)
  from stream_ok_relay(1)[OF s channel_poll[OF this]] poll_reported poll_sent(1)
  have "stream_ok (with_relay (snd (poll_next (en_parse_env en) (en_timer en) up now (relay_of s))) s)" by blast
  from all_set_update[OF poll.prems this] show ?case by simp
next
  case (drop i g s)
  then have s: "stream_ok s" by auto
  then have c: "channel_ok (relay_of s)" by (simp add: stream_ok_def)
  have "\<not> ry_reporter (relay_drop (relay_of s))" by (simp add: relay_drop_def report_def)
  with stream_ok_relay(2)[OF s channel_drop[OF c]] poll_sent(2)
  have "stream_ok ((with_relay (relay_drop (relay_of s)) s)\<lparr>lv_dropped := True\<rparr>)" by blast
  from all_set_update[OF drop.prems this] show ?case by simp
next
  case (summarise i g s summary rest)
  then have s: "stream_ok s" by auto
  then have "\<not> ry_reporter (relay_of s)" using summarise(4) by (auto simp: stream_ok_def channel_ok_def split: if_splits)
  with s have "stream_ok (s\<lparr>lv_booking := Some (accounting_task (lv_task s) (Some summary))\<rparr>)"
    using summarise(4) by (auto simp: stream_ok_def)
  from all_set_update[OF summarise.prems this] show ?case by simp
next
  case (book i g s op ops now)
  then have s: "stream_ok s" by auto
  then have "stream_ok (s\<lparr>lv_booking := Some ops\<rparr>)"
    using book(3) by (auto simp: stream_ok_def dest: suffix_ConsD)
  from all_set_update[OF book.prems this] show ?case by simp
qed

section \<open>Every stream is charged once\<close>

text \<open>What a stream has been charged so far, and the calls its accounting task still has to make.\<close>

definition still_due :: "live_stream \<Rightarrow> shared_op list" where
  "still_due s = (case lv_booking s of None \<Rightarrow> [] | Some ops \<Rightarrow> ops)"

definition settled :: "live_stream \<Rightarrow> (string \<times> usage) list" where
  "settled s = (case lv_booking s of
     None \<Rightarrow> []
   | Some ops \<Rightarrow> if ops_charges ops = [] then summary_charge (lv_task s) (hd (ry_sent (relay_of s))) else [])"

lemma task_rest:
  assumes "suffix (op # ops) (accounting_task task (Some summary))"
  shows "op_charges op @ ops_charges ops = summary_charge task summary \<and> ops_charges ops = [] \<or>
    op_charges op @ ops_charges ops = []"
  using assms
  by (auto simp: accounting_task_def account_ops_def summary_charge_def suffix_Cons
      split: option.splits relay_outcome.splits)

lemma stream_ok_due:
  assumes "stream_ok s" and "lv_booking s = Some ops"
  shows "suffix ops (accounting_task (lv_task s) (Some (hd (ry_sent (relay_of s)))))"
  using assms by (simp add: stream_ok_def)

lemma settled_same:
  assumes "stream_ok s" and "\<not> ry_reporter (relay_of s) \<Longrightarrow> ry_sent r = ry_sent (relay_of s)"
  shows "settled (with_relay r s) = settled s" "settled ((with_relay r s)\<lparr>lv_dropped := d\<rparr>) = settled s"
  using assms by (auto simp: settled_def stream_ok_def summary_charge_def with_relay_def split: option.split)

lemma concat_update:
  assumes "i < length xs"
  shows "mset (concat (map f (xs[i := y]))) + mset (f (xs ! i)) = mset (concat (map f xs)) + mset (f y)"
proof -
  have "map f xs = map f (take i xs) @ f (xs ! i) # map f (drop (Suc i) xs)"
    using id_take_nth_drop[OF assms] by (metis list.simps(9) map_append)
  then have "mset (concat (map f xs)) = mset (concat (map f (take i xs))) + mset (f (xs ! i)) +
      mset (concat (map f (drop (Suc i) xs)))" by simp
  then show ?thesis using assms by (simp add: upd_conv_take_nth_drop)
qed

lemma concat_updated:
  assumes "i < length xs" and "mset (f y) = mset (f (xs ! i)) + c"
  shows "mset (concat (map f (xs[i := y]))) = mset (concat (map f xs)) + c"
proof -
  have "mset (concat (map f (xs[i := y]))) + mset (f (xs ! i)) = (mset (concat (map f xs)) + c) + mset (f (xs ! i))"
    using concat_update[OF assms(1), of f y] assms(2) by (simp add: ac_simps)
  then show ?thesis by simp
qed

text \<open>
  Of two ways to view a run: what streams have been charged is what the steps recorded for them, and every
  call that a task has still to make is made by it later.
\<close>

lemma stream_step_settled:
  assumes "stream_step en g l g'" and "\<forall>s \<in> set (gw_streams g). stream_ok s"
  shows "mset (concat (map settled (gw_streams g'))) =
    mset (concat (map settled (gw_streams g))) + mset (stream_charges l)"
  using assms
proof (induction rule: stream_step.induct)
  case (poll i g s up now)
  then have "stream_ok s" by auto
  from settled_same(1)[OF this poll_sent(1)]
  have "settled (with_relay (snd (poll_next (en_parse_env en) (en_timer en) up now (relay_of s))) s) = settled s" by simp
  then show ?case by (simp add: concat_updated[OF poll(1), where c = "{#}"] poll(2))
next
  case (drop i g s)
  then have "stream_ok s" by auto
  from settled_same(2)[OF this poll_sent(2)]
  have "settled ((with_relay (relay_drop (relay_of s)) s)\<lparr>lv_dropped := True\<rparr>) = settled s" by simp
  then show ?case by (simp add: concat_updated[OF drop(1), where c = "{#}"] drop(2))
next
  case (summarise i g s summary rest)
  have "settled (s\<lparr>lv_booking := Some (accounting_task (lv_task s) (Some summary))\<rparr>) = settled s"
    using summarise(3,4) by (simp add: settled_def task_charges)
  then show ?case by (simp add: concat_updated[OF summarise(1), where c = "{#}"] summarise(2))
next
  case (book i g s op ops now)
  then have s: "stream_ok s" by auto
  from task_rest[OF stream_ok_due[OF s book(3)]]
  have "mset (settled (s\<lparr>lv_booking := Some ops\<rparr>)) = mset (settled s) + mset (op_charges op)"
    using book(3) by (auto simp: settled_def)
  then show ?case by (simp add: concat_updated[OF book(1), where c = "mset (op_charges op)"] book(2))
qed

end
