(* ===== verification/Interleaving.thy ===== *)
theory Interleaving
  imports Gateway
begin

text \<open>
  The running gateway as the multi-threaded runtime executes it.  A request in flight is a task of theory
  \<open>Requests\<close> with the calls on the shared state it still has to make before it waits again; a step
  is one such call, or one event; steps of different requests and of the streams interleave freely.  While
  a request waits, its client may go away, and the server then drops the handler where it is.
\<close>

section \<open>The step relation\<close>

type_synonym request_task = "shared_op list \<times> chat_task"

record 'g async_gateway =
  as_gateway :: "'g gateway"
  as_tasks :: "request_task list"

abbreviation "app_of g \<equiv> gw_app (as_gateway g)"
abbreviation "streams_of g \<equiv> gw_streams (as_gateway g)"

text \<open>The chat request among the requests: one with a valid header.\<close>

definition chat_of ::
  "'g environment \<Rightarrow> key_store \<Rightarrow> route_request \<Rightarrow> (key_identity \<times> bytes) option" where
  "chat_of en keys req = (case req of
     PostChatCompletions authorization body \<Rightarrow>
       (case from_request_parts (en_to_str en) keys authorization of
          Inl e \<Rightarrow> None | Inr identity \<Rightarrow> Some (identity, body))
   | _ \<Rightarrow> None)"

type_synonym net_log = "(key_identity \<times> net_event) list"

definition without :: "nat \<Rightarrow> 'a list \<Rightarrow> 'a list" where
  "without i xs = take i xs @ drop (Suc i) xs"

text \<open>
  A step shows the event or the call it was, and what it did on the network, and for whom.  \<open>other\<close> are the
  requests that are answered at once; \<open>reply\<close> hands the response to the client, and a streamed one joins
  the live streams; \<open>abandon\<close> is a client that goes away while its request waits.
\<close>

inductive async_step ::
  "'g environment \<Rightarrow> 'g async_gateway \<Rightarrow> step_label \<Rightarrow> net_log \<Rightarrow> 'g async_gateway \<Rightarrow> bool" for en where
  arrive:
    "chat_of en (ap_keys (app_of g)) req = Some (identity, body)
     \<Longrightarrow> begin_chat (en_externals en) clock identity body (app_of g) = (t, st', ops, tr)
     \<Longrightarrow> async_step en g Quiet (map (Pair identity) tr)
           (g\<lparr>as_gateway := (as_gateway g)\<lparr>gw_app := st'\<rparr>, as_tasks := as_tasks g @ [(ops, t)]\<rparr>)"
| resume:
    "i < length (as_tasks g) \<Longrightarrow> as_tasks g ! i = ([], t) \<Longrightarrow> task_call t = Some c
     \<Longrightarrow> chat_step (en_externals en) m wk t = Some (t', ops, tr)
     \<Longrightarrow> async_step en g (Woken (ca_identity c) wk) (map (Pair (ca_identity c)) tr)
           (g\<lparr>as_tasks := (as_tasks g)[i := (ops, t')]\<rparr>)"
| perform_next:
    "i < length (as_tasks g) \<Longrightarrow> as_tasks g ! i = (op # ops, t)
     \<Longrightarrow> async_step en g (Performed op) []
           (g\<lparr>as_gateway := (as_gateway g)\<lparr>gw_app := perform now op (app_of g)\<rparr>,
             as_tasks := (as_tasks g)[i := (ops, t)]\<rparr>)"
| reply:
    "i < length (as_tasks g) \<Longrightarrow> as_tasks g ! i = ([], Replied rsp)
     \<Longrightarrow> async_step en g Quiet []
           (g\<lparr>as_gateway := (as_gateway g)\<lparr>gw_streams := streams_of g @ opened rsp\<rparr>,
             as_tasks := without i (as_tasks g)\<rparr>)"
| abandon:
    "i < length (as_tasks g) \<Longrightarrow> as_tasks g ! i = ([], t) \<Longrightarrow> task_call t = Some c
     \<Longrightarrow> async_step en g Quiet [] (g\<lparr>as_tasks := without i (as_tasks g)\<rparr>)"
| other:
    "chat_of en (ap_keys (app_of g)) req = None
     \<Longrightarrow> dispatch_request (en_externals en) (en_to_str en) (en_hash_order en) w req (app_of g) = (rsp, st', tr)
     \<Longrightarrow> async_step en g Quiet [] (g\<lparr>as_gateway := (as_gateway g)\<lparr>gw_app := st'\<rparr>\<rparr>)"
| streaming:
    "stream_step en (as_gateway g) l gw \<Longrightarrow> async_step en g l [] (g\<lparr>as_gateway := gw\<rparr>)"

inductive async_run ::
  "'g environment \<Rightarrow> 'g async_gateway \<Rightarrow> step_label list \<Rightarrow> net_log \<Rightarrow> 'g async_gateway \<Rightarrow> bool" for en g0 where
  async_start: "async_run en g0 [] [] g0"
| async_more: "async_run en g0 ls evs g \<Longrightarrow> async_step en g l ev g' \<Longrightarrow>
     async_run en g0 (ls @ [l]) (evs @ ev) g'"

definition fresh_gateway :: "'g app_state \<Rightarrow> 'g async_gateway" where
  "fresh_gateway st = \<lparr>as_gateway = booted st, as_tasks = []\<rparr>"

lemma fresh_gateway_simps [simp]:
  "as_gateway (fresh_gateway st) = booted st" "as_tasks (fresh_gateway st) = []"
  by (simp_all add: fresh_gateway_def)

lemma booted_simps [simp]: "gw_app (booted st) = st" "gw_streams (booted st) = []"
  by (simp_all add: booted_def)

lemma async_run_trans:
  "async_run en g ls' evs' g' \<Longrightarrow> async_run en g0 ls evs g \<Longrightarrow> async_run en g0 (ls @ ls') (evs @ evs') g'"
proof (induction rule: async_run.induct)
  case (async_more ls' evs' g' l ev g'')
  then show ?case using async_run.async_more by fastforce
qed simp

lemma async_single: "async_step en g l ev g' \<Longrightarrow> async_run en g [l] ev g'"
  using async_run.async_more[OF async_run.async_start] by fastforce

lemma other_dispatch:
  assumes "chat_of en (ap_keys st) req = None"
  shows "snd (dispatch_request ex (en_to_str en) ho w req st) = (st, [])"
  using assms
  by (auto simp: dispatch_request_def chat_of_def Let_def split: route_request.splits sum.splits)

lemma without_subset: "x \<in> set (without i xs) \<Longrightarrow> x \<in> set xs"
  by (auto simp: without_def dest: in_set_takeD in_set_dropD)

lemma concat_without:
  assumes "i < length xs" and "f (xs ! i) = []"
  shows "mset (concat (map f (without i xs))) = mset (concat (map f xs))"
proof -
  have "xs = take i xs @ xs ! i # drop (Suc i) xs" by (rule id_take_nth_drop[OF assms(1)])
  then have "concat (map f xs) = concat (map f (take i xs)) @ f (xs ! i) @ concat (map f (drop (Suc i) xs))"
    by (metis concat.simps(2) concat_append list.simps(9) map_append)
  then show ?thesis using assms(2) by (simp add: without_def)
qed

section \<open>The books\<close>

lemma begin_chat_state:
  assumes "begin_chat ex clock identity body st = (t, st', ops, tr)"
  shows "accounts [] [] st st'" "ops_charges ops = []" "ops_shown ops = []"
proof -
  obtain r limits where c: "check_rpm (ex_check_key ex) clock (ki_name identity) (ap_limits st) = (r, limits)" by fastforce
  then have "rs_limits limits = rs_limits (ap_limits st)" by (metis check_rpm_frame snd_conv)
  moreover have "st' = st\<lparr>ap_limits := limits\<rparr> \<and> ops_charges ops = [] \<and> ops_shown ops = []"
    using assms by (auto simp: begin_chat_def c Let_def split: sum.splits if_splits)
  ultimately show "accounts [] [] st st'" "ops_charges ops = []" "ops_shown ops = []"
    by (simp_all add: accounts_def budget_records_def record_all_tokens_def)
qed

lemma async_step_accounts:
  "async_step en g l ev g' \<Longrightarrow> accounts (ops_charges (label_ops l)) (ops_shown (label_ops l)) (app_of g) (app_of g')"
proof (induction rule: async_step.induct)
  case (arrive g req identity body clock t st' ops tr)
  then show ?case using begin_chat_state(1) by fastforce
next
  case (other g req w rsp st' tr)
  then show ?case using other_dispatch[OF other(1), of "en_externals en" "en_hash_order en" w] by simp
qed (simp_all add: stream_step_accounts accounts_perform)

text \<open>Whatever the interleaving: the ledger and the token metrics hold what the calls of the run recorded.\<close>

lemma async_accounts:
  "async_run en g0 ls evs g \<Longrightarrow> accounts (all_charges ls) (all_shown ls) (app_of g0) (app_of g)"
proof (induction rule: async_run.induct)
  case (async_more ls evs g l ev g')
  then show ?case using accounts_trans async_step_accounts by fastforce
qed simp

section \<open>Live streams\<close>

lemma opened_stream:
  assumes "s \<in> set (opened rsp)" and "\<And>task. rsp_body rsp = StreamBody task \<Longrightarrow> \<exists>now. st_relay task = relay_new stall_timeout now"
  shows "(\<exists>now. relay_of s = relay_new stall_timeout now) \<and> \<not> lv_dropped s \<and> lv_booking s = None"
  using assms opened_ok[OF assms(1)] by blast

text \<open>A response that has not been handed out yet carries a new relay, if any.\<close>

definition response_ok :: "stream_task response \<Rightarrow> bool" where
  "response_ok rsp \<longleftrightarrow> (\<forall>task. rsp_body rsp = StreamBody task \<longrightarrow> (\<exists>now. st_relay task = relay_new stall_timeout now))"

definition reply_ok :: "chat_task \<Rightarrow> bool" where
  "reply_ok t \<longleftrightarrow> (\<forall>rsp. t = Replied rsp \<longrightarrow> response_ok rsp)"

lemma some_start [simp]: "\<exists>now. relay_new d start = relay_new d now"
  by blast

lemma respond_ok:
  "respond ex start key b req res = (rsp, ops) \<Longrightarrow> response_ok rsp"
  by (auto simp: response_ok_def respond_def stream_response_def buffered_response_def error_response_def Let_def
      split: forwarded.splits if_splits sum.splits option.splits)

lemma reply_ok_simps [simp]:
  "reply_ok (Sleeping c i ms)" "reply_ok (Opening c i)" "reply_ok (ReadingError c i resp)" "reply_ok (ReadingBody c resp)"
  "reply_ok (Replied rsp) = response_ok rsp"
  by (simp_all add: reply_ok_def)

lemma finish_ok: "finish_chat ex m c res = (t, ops) \<Longrightarrow> reply_ok t"
  by (auto simp: finish_chat_def dest: respond_ok split: prod.splits)

lemma attempt_failed_ok: "attempt_failed ex m c i e = (t, ops) \<Longrightarrow> reply_ok t"
  by (auto simp: attempt_failed_def dest: finish_ok split: prod.splits if_splits)

lemma chat_step_reply_ok: "chat_step ex m wk t = Some (t', ops, tr) \<Longrightarrow> reply_ok t'"
  by (cases t; cases wk)
    (auto simp: response_ok_def buffered_response_def error_response_def Let_def
      dest: finish_ok attempt_failed_ok split: sum.splits if_splits prod.splits)

lemma begin_chat_reply_ok: "begin_chat ex clock identity body st = (t, st', ops, tr) \<Longrightarrow> reply_ok t"
  by (auto simp: begin_chat_def response_ok_def error_response_def Let_def
      split: prod.splits sum.splits if_splits)

definition fresh_stream :: "live_stream \<Rightarrow> bool" where
  "fresh_stream s \<longleftrightarrow> (\<exists>now. relay_of s = relay_new stall_timeout now) \<and> \<not> lv_dropped s \<and> lv_booking s = None"

lemma fresh_stream_ok:
  "fresh_stream s \<Longrightarrow> stream_ok s" "fresh_stream s \<Longrightarrow> settled s = []" "fresh_stream s \<Longrightarrow> still_due s = []"
  by (auto simp: fresh_stream_def stream_ok_def channel_ok_def relay_new_def settled_def still_due_def)

lemma opened_fresh: "response_ok rsp \<Longrightarrow> s \<in> set (opened rsp) \<Longrightarrow> fresh_stream s"
  using opened_stream unfolding response_ok_def fresh_stream_def by blast

lemma opened_settled:
  assumes "response_ok rsp"
  shows "concat (map settled (opened rsp)) = []" "concat (map (ops_charges \<circ> still_due) (opened rsp)) = []"
    "concat (map (ops_shown \<circ> still_due) (opened rsp)) = []"
  using opened_fresh[OF assms] fresh_stream_ok by auto

definition gateway_ok :: "'g async_gateway \<Rightarrow> bool" where
  "gateway_ok g \<longleftrightarrow> (\<forall>s \<in> set (streams_of g). stream_ok s) \<and> (\<forall>x \<in> set (as_tasks g). reply_ok (snd x))"

lemma async_step_gateway_ok:
  assumes "async_step en g l ev g'" and "gateway_ok g"
  shows "gateway_ok g'"
  using assms
proof (induction rule: async_step.induct)
  case (arrive g req identity body clock t st' ops tr)
  then show ?case using begin_chat_reply_ok by (auto simp: gateway_ok_def)
next
  case (resume i g t c m wk t' ops tr)
  have ok: "reply_ok (snd (ops, t'))" using chat_step_reply_ok[OF resume(4)] by simp
  have "\<forall>x \<in> set (as_tasks g). reply_ok (snd x)" using resume(5) by (simp add: gateway_ok_def)
  from all_set_update[OF this ok] resume(5) show ?case by (simp add: gateway_ok_def)
next
  case (perform_next i g op ops t now)
  then have ok: "reply_ok (snd (ops, t))" by (metis gateway_ok_def nth_mem snd_conv)
  have "\<forall>x \<in> set (as_tasks g). reply_ok (snd x)" using perform_next(3) by (simp add: gateway_ok_def)
  from all_set_update[OF this ok] perform_next(3) show ?case by (simp add: gateway_ok_def)
next
  case (reply i g rsp)
  then have "response_ok rsp" by (metis gateway_ok_def nth_mem reply_ok_simps(5) snd_conv)
  with reply(3) show ?case using opened_fresh fresh_stream_ok(1) by (auto simp: gateway_ok_def dest: without_subset)
next
  case (streaming g l gw)
  then show ?case using stream_step_streams_ok[OF streaming(1)] by (simp add: gateway_ok_def)
qed (auto simp: gateway_ok_def dest: without_subset)

lemma async_gateway_ok: "async_run en (fresh_gateway st) ls evs g \<Longrightarrow> gateway_ok g"
proof (induction rule: async_run.induct)
  case (async_more ls evs g l ev g')
  then show ?case using async_step_gateway_ok by blast
qed (simp add: gateway_ok_def)

lemma async_step_settled:
  assumes "async_step en g l ev g'" and "gateway_ok g"
  shows "mset (concat (map settled (streams_of g'))) =
    mset (concat (map settled (streams_of g))) + mset (stream_charges l)"
  using assms
proof (induction rule: async_step.induct)
  case (reply i g rsp)
  then have "response_ok rsp" by (metis gateway_ok_def nth_mem reply_ok_simps(5) snd_conv)
  then show ?case by (simp add: opened_settled)
next
  case (streaming g l gw)
  then show ?case using stream_step_settled[OF streaming(1)] by (simp add: gateway_ok_def)
qed simp_all

lemma async_settled:
  assumes "async_run en (fresh_gateway st) ls evs g"
  shows "mset (concat (map stream_charges ls)) = mset (concat (map settled (streams_of g)))"
  using assms
proof (induction rule: async_run.induct)
  case (async_more ls evs g l ev g')
  then show ?case using async_step_settled[OF async_more(2) async_gateway_ok[OF async_more(1)]] by simp
qed simp

section \<open>What is due\<close>

text \<open>
  A usage is due in the ledger (or in the metrics) while the call that records it is still ahead: of a
  request in flight, or of an accounting task that has its summary.
\<close>

definition due_ops :: "'g async_gateway \<Rightarrow> shared_op list" where
  "due_ops g = concat (map fst (as_tasks g)) @ concat (map still_due (streams_of g))"

definition task_dues :: "'g async_gateway \<Rightarrow> (string \<times> usage) list" where
  "task_dues g = concat (map (ops_charges \<circ> fst) (as_tasks g))"

definition stream_dues :: "'g async_gateway \<Rightarrow> (string \<times> usage) list" where
  "stream_dues g = concat (map (ops_charges \<circ> still_due) (streams_of g))"

definition dues_shown :: "'g async_gateway \<Rightarrow> (string \<times> usage) list" where
  "dues_shown g = concat (map (ops_shown \<circ> fst) (as_tasks g)) @ concat (map (ops_shown \<circ> still_due) (streams_of g))"

lemma ops_concat:
  "ops_charges (concat xss) = concat (map ops_charges xss)" "ops_shown (concat xss) = concat (map ops_shown xss)"
  by (induction xss) simp_all

lemma due_ops_charges:
  "ops_charges (due_ops g) = task_dues g @ stream_dues g" "ops_shown (due_ops g) = dues_shown g"
  by (simp_all add: due_ops_def task_dues_def stream_dues_def dues_shown_def ops_concat comp_def)

text \<open>The usages of the buffered bodies that requests read, each under the key of its request.\<close>

fun body_charges :: "'g externals \<Rightarrow> step_label \<Rightarrow> (string \<times> usage) list" where
  "body_charges ex (Woken identity (BodyRead (Inr body))) = charge_of (ki_name identity) (body_usage ex body)"
| "body_charges ex _ = []"

lemma attempt_failed_dues: "attempt_failed ex m c i e = (t, ops) \<Longrightarrow> ops_charges ops = [] \<and> ops_shown ops = []"
  by (auto simp: attempt_failed_def finish_chat_def respond_def Let_def split: if_splits)

lemma finish_dues:
  "finish_chat ex m c (GotResponse resp) = (t, ops) \<Longrightarrow> cr_stream (ca_request c) \<Longrightarrow> ops_charges ops = [] \<and> ops_shown ops = []"
  by (auto simp: finish_chat_def respond_def Let_def)

lemma chat_step_dues:
  assumes "chat_step ex m wk t = Some (t', ops, tr)" and "task_call t = Some c"
  shows "ops_charges ops = body_charges ex (Woken (ca_identity c) wk)" "ops_shown ops = ops_charges ops"
proof -
  have body: "ops_charges (snd (buffered_response ex key bk (resp\<lparr>hr_bytes := x\<rparr>))) =
      (case x of Inl e \<Rightarrow> [] | Inr body \<Rightarrow> charge_of key (body_usage ex body))" for key bk resp x
    by (simp add: buffered_charges)
  have "ops_charges ops = body_charges ex (Woken (ca_identity c) wk) \<and> ops_shown ops = ops_charges ops"
  proof (cases wk)
    case (BodyRead x)
    then obtain resp where t: "t = ReadingBody c resp" using assms by (cases t) auto
    then have ops: "ops = snd (buffered_response ex (ki_name (ca_identity c)) (be_name (ca_backend c)) (resp\<lparr>hr_bytes := x\<rparr>))"
      using assms(1) BodyRead by (auto split: prod.splits)
    show ?thesis unfolding ops by (cases x) (simp_all add: buffered_charges BodyRead)
  qed (use assms in \<open>cases t; auto dest: attempt_failed_dues finish_dues split: sum.splits if_splits prod.splits\<close>)+
  then show "ops_charges ops = body_charges ex (Woken (ca_identity c) wk)" "ops_shown ops = ops_charges ops" by simp_all
qed

text \<open>
  Between two steps: what became due is what was read (a body by a request, a summary by an accounting
  task), and what was recorded is due no more.
\<close>

lemma async_step_task_dues:
  assumes "async_step en g l ev g'"
  shows "mset (task_dues g') + mset (request_charges l) = mset (task_dues g) + mset (body_charges (en_externals en) l)"
  using assms
proof (induction rule: async_step.induct)
  case (arrive g req identity body clock t st' ops tr)
  then show ?case using begin_chat_state(2) by (simp add: task_dues_def)
next
  case (resume i g t c m wk t' ops tr)
  have "mset ((ops_charges \<circ> fst) (ops, t')) = mset ((ops_charges \<circ> fst) (as_tasks g ! i)) +
      mset (body_charges (en_externals en) (Woken (ca_identity c) wk))"
    using chat_step_dues(1)[OF resume(4,3)] resume(2) by simp
  from concat_updated[OF resume(1) this] show ?case by (simp add: task_dues_def comp_def)
next
  case (perform_next i g op ops t now)
  have "mset (concat (map (ops_charges \<circ> fst) ((as_tasks g)[i := (ops, t)]))) + mset (op_charges op @ ops_charges ops) =
      mset (concat (map (ops_charges \<circ> fst) (as_tasks g))) + mset (ops_charges ops)"
    using concat_update[OF perform_next(1), of "ops_charges \<circ> fst" "(ops, t)"] perform_next(2) by simp
  then show ?case by (simp add: task_dues_def ac_simps)
next
  case (reply i g rsp)
  then show ?case by (simp add: task_dues_def concat_without)
next
  case (abandon i g t c)
  then show ?case by (simp add: task_dues_def concat_without)
next
  case (streaming g l gw)
  then show ?case by (cases rule: stream_step.cases) (simp_all add: task_dues_def)
qed (simp add: task_dues_def)

lemma async_task_dues:
  assumes "async_run en (fresh_gateway st) ls evs g"
  shows "mset (concat (map request_charges ls)) + mset (task_dues g) =
    mset (concat (map (body_charges (en_externals en)) ls))"
  using assms
proof (induction rule: async_run.induct)
  case (async_more ls evs g l ev g')
  have "mset (concat (map request_charges ls)) + (mset (task_dues g') + mset (request_charges l)) =
      mset (concat (map (body_charges (en_externals en)) ls)) + mset (body_charges (en_externals en) l)"
    unfolding async_step_task_dues[OF async_more(2)] async_more.IH[symmetric] by (simp add: ac_simps)
  then show ?case by (simp add: ac_simps)
qed (simp add: task_dues_def)

text \<open>
  Every call that becomes due comes with its counterpart: a usage due in the ledger is due in the metrics.
\<close>

lemma ops_mset:
  assumes "mset xs = mset ys"
  shows "mset (ops_charges xs) = mset (ops_charges ys)" "mset (ops_shown xs) = mset (ops_shown ys)"
proof -
  have m: "mset (concat (map f xs)) = \<Sum>\<^sub># (image_mset (\<lambda>x. mset (f x)) (mset xs))" for f :: "'b \<Rightarrow> 'c list" and xs
    by (induction xs) simp_all
  show "mset (ops_charges xs) = mset (ops_charges ys)" "mset (ops_shown xs) = mset (ops_shown ys)"
    unfolding ops_charges_def ops_shown_def m assms by (rule refl)+
qed

lemma stream_step_dues:
  assumes "stream_step en g l g'"
  shows "\<exists>new. mset (concat (map still_due (gw_streams g'))) + mset (label_ops l) =
      mset (concat (map still_due (gw_streams g))) + mset new \<and> ops_charges new = ops_shown new"
  using assms
proof (induction rule: stream_step.induct)
  case (poll i g s up now)
  have "still_due (with_relay r s) = still_due s" for r by (simp add: still_due_def)
  then show ?case using poll(2)
    by (intro exI[of _ "[]"]) (simp add: concat_updated[OF poll(1), where c = "{#}"])
next
  case (drop i g s)
  have "still_due ((with_relay r s)\<lparr>lv_dropped := True\<rparr>) = still_due s" for r by (simp add: still_due_def)
  then show ?case using drop(2)
    by (intro exI[of _ "[]"]) (simp add: concat_updated[OF drop(1), where c = "{#}"])
next
  case (summarise i g s summary rest)
  let ?new = "accounting_task (lv_task s) (Some summary)"
  have "mset (still_due (s\<lparr>lv_booking := Some ?new\<rparr>)) = mset (still_due (gw_streams g ! i)) + mset ?new"
    using summarise(2,3) by (simp add: still_due_def)
  from concat_updated[OF summarise(1) this] show ?case
    by (intro exI[of _ ?new]) (simp add: task_charges)
next
  case (book i g s op ops now)
  have "mset (concat (map still_due ((gw_streams g)[i := s\<lparr>lv_booking := Some ops\<rparr>]))) + mset (op # ops) =
      mset (concat (map still_due (gw_streams g))) + mset ops"
    using concat_update[OF book(1), of still_due "s\<lparr>lv_booking := Some ops\<rparr>"] book(2,3) by (simp add: still_due_def)
  then show ?case by (intro exI[of _ "[]"]) simp
qed

lemma async_step_dues:
  assumes "async_step en g l ev g'" and "gateway_ok g"
  shows "\<exists>new. mset (due_ops g') + mset (label_ops l) = mset (due_ops g) + mset new \<and> ops_charges new = ops_shown new"
  using assms
proof (induction rule: async_step.induct)
  case (arrive g req identity body clock t st' ops tr)
  then show ?case using begin_chat_state(2,3)[OF arrive(2)] by (intro exI[of _ ops]) (simp add: due_ops_def)
next
  case (resume i g t c m wk t' ops tr)
  have "mset (fst (ops, t')) = mset (fst (as_tasks g ! i)) + mset ops" using resume(2) by simp
  from concat_updated[OF resume(1) this] chat_step_dues(2)[OF resume(4,3)] show ?case
    by (intro exI[of _ ops]) (simp add: due_ops_def)
next
  case (perform_next i g op ops t now)
  have "mset (concat (map fst ((as_tasks g)[i := (ops, t)]))) + mset (op # ops) =
      mset (concat (map fst (as_tasks g))) + mset ops"
    using concat_update[OF perform_next(1), of fst "(ops, t)"] perform_next(2) by simp
  then show ?case by (intro exI[of _ "[]"]) (simp add: due_ops_def)
next
  case (reply i g rsp)
  then have "response_ok rsp" by (metis gateway_ok_def nth_mem reply_ok_simps(5) snd_conv)
  then have "concat (map still_due (opened rsp)) = []" using opened_fresh fresh_stream_ok(3) by auto
  with reply show ?case by (intro exI[of _ "[]"]) (simp add: due_ops_def concat_without)
next
  case (abandon i g t c)
  then show ?case by (intro exI[of _ "[]"]) (simp add: due_ops_def concat_without)
next
  case (streaming g l gw)
  from stream_step_dues[OF streaming(1)] obtain new where
    "mset (concat (map still_due (gw_streams gw))) + mset (label_ops l) = mset (concat (map still_due (streams_of g))) + mset new"
    "ops_charges new = ops_shown new" by blast
  then show ?case by (intro exI[of _ new]) (simp add: due_ops_def ac_simps)
qed (intro exI[of _ "[]"], simp add: due_ops_def)

lemma async_dues:
  assumes "async_run en (fresh_gateway st) ls evs g"
  shows "\<exists>new. mset (concat (map label_ops ls)) + mset (due_ops g) = mset new \<and> ops_charges new = ops_shown new"
  using assms
proof (induction rule: async_run.induct)
  case (async_more ls evs g l ev g')
  then obtain new where n: "mset (concat (map label_ops ls)) + mset (due_ops g) = mset new" "ops_charges new = ops_shown new"
    by blast
  obtain new' where n': "mset (due_ops g') + mset (label_ops l) = mset (due_ops g) + mset new'" "ops_charges new' = ops_shown new'"
    using async_step_dues[OF async_more(2) async_gateway_ok[OF async_more(1)]] by blast
  have "mset (concat (map label_ops ls)) + (mset (due_ops g') + mset (label_ops l)) = mset new + mset new'"
    unfolding n'(1) n(1)[symmetric] by (simp add: ac_simps)
  with n(2) n'(2) show ?case by (intro exI[of _ "new @ new'"]) (simp add: ac_simps)
qed (intro exI[of _ "[]"], simp add: due_ops_def)

text \<open>The ledger and the token metrics differ by what is due only.\<close>

lemma charges_and_shown:
  assumes "async_run en (fresh_gateway st) ls evs g"
  shows "mset (all_charges ls) + mset (ops_charges (due_ops g)) = mset (all_shown ls) + mset (ops_shown (due_ops g))"
proof -
  obtain new where n: "mset (concat (map label_ops ls) @ due_ops g) = mset new" "ops_charges new = ops_shown new"
    using async_dues[OF assms] by auto
  from ops_mset[OF n(1)] n(2) show ?thesis by (simp add: all_charges_def all_shown_def)
qed

section \<open>Requests in flight\<close>

text \<open>
  Every request in flight is on its way to one backend, fixed when it arrived: a backend of the routing
  table that serves its model, and a Local one if the identity of the request enforces privacy.
\<close>

definition call_ok :: "backend list \<Rightarrow> chat_call \<Rightarrow> bool" where
  "call_ok bs c \<longleftrightarrow> ca_backend c \<in> set bs \<and> serves_model (ca_backend c) (cr_model (ca_request c)) \<and>
     (ki_enforce_private (ca_identity c) \<longrightarrow> be_privacy (ca_backend c) = Local)"

definition task_ok :: "backend list \<Rightarrow> chat_task \<Rightarrow> bool" where
  "task_ok bs t \<longleftrightarrow> (\<forall>c. task_call t = Some c \<longrightarrow> call_ok bs c)"

definition log_ok :: "backend list \<Rightarrow> net_log \<Rightarrow> bool" where
  "log_ok bs evs \<longleftrightarrow> (\<forall>identity b q. (identity, Sent b q) \<in> set evs \<longrightarrow>
     b \<in> set bs \<and> (ki_enforce_private identity \<longrightarrow> be_privacy b = Local))"

lemma begin_chat_ok:
  assumes "begin_chat ex clock identity body st = (t, st', ops, tr)"
  shows "task_ok (ro_backends (ap_router st)) t \<and> log_ok (ro_backends (ap_router st)) (map (Pair identity) tr)"
proof -
  have eligible: "b \<in> set (ro_backends (ap_router st)) \<and> eligible q p b" if "route (ap_router st) q p = Inr b" for q p b
    using route_only_eligible[of q p "ap_router st"] that by simp
  show ?thesis
    using assms
    by (auto simp: begin_chat_def task_ok_def call_ok_def log_ok_def send_event_def eligible_def new_query_def Let_def
        dest!: eligible split: prod.splits sum.splits if_splits)
qed

lemma attempt_failed_call:
  "attempt_failed ex m c i e = (t, ops) \<Longrightarrow> task_call t = Some c \<or> task_call t = None"
  by (auto simp: attempt_failed_def finish_chat_def split: if_splits prod.splits)

lemma chat_step_call:
  assumes "chat_step ex m wk t = Some (t', ops, tr)" and "task_call t = Some c"
  shows "(task_call t' = Some c \<or> task_call t' = None) \<and> (\<forall>b q. Sent b q \<in> set tr \<longrightarrow> b = ca_backend c)"
  using assms
  by (cases t; cases wk)
    (auto simp: send_event_def finish_chat_def dest!: attempt_failed_call split: sum.splits if_splits prod.splits)

lemma chat_step_ok:
  assumes "chat_step ex m wk t = Some (t', ops, tr)" and "task_call t = Some c" and "task_ok bs t"
  shows "task_ok bs t' \<and> log_ok bs (map (Pair (ca_identity c)) tr)"
  using chat_step_call[OF assms(1,2)] assms(2,3) by (auto simp: task_ok_def log_ok_def call_ok_def)

lemma log_ok_append [simp]: "log_ok bs (evs @ evs') \<longleftrightarrow> log_ok bs evs \<and> log_ok bs evs'"
  unfolding log_ok_def set_append Un_iff by blast

lemma async_step_tasks:
  assumes "async_step en g l ev g'" and "\<forall>x \<in> set (as_tasks g). task_ok (ro_backends (ap_router (app_of g))) (snd x)"
  shows "(\<forall>x \<in> set (as_tasks g'). task_ok (ro_backends (ap_router (app_of g))) (snd x))
    \<and> log_ok (ro_backends (ap_router (app_of g))) ev"
  using assms
proof (induction rule: async_step.induct)
  case (arrive g req identity body clock t st' ops tr)
  then show ?case using begin_chat_ok[OF arrive(2)] by simp
next
  case (resume i g t c m wk t' ops tr)
  then have "task_ok (ro_backends (ap_router (app_of g))) t" by (metis nth_mem snd_conv)
  note ok = chat_step_ok[OF resume(4,3) this]
  then have "task_ok (ro_backends (ap_router (app_of g))) (snd (ops, t'))" by simp
  from all_set_update[OF resume(5) this] ok show ?case by simp
next
  case (perform_next i g op ops t now)
  then have "task_ok (ro_backends (ap_router (app_of g))) (snd (ops, t))" by (metis nth_mem snd_conv)
  from all_set_update[OF perform_next(3) this] show ?case by (simp add: log_ok_def)
qed (auto simp: log_ok_def dest: without_subset)

lemma async_tasks:
  assumes "async_run en (fresh_gateway st) ls evs g"
  shows "(\<forall>x \<in> set (as_tasks g). task_ok (ro_backends (ap_router st)) (snd x))
    \<and> log_ok (ro_backends (ap_router st)) evs"
  using assms
proof (induction rule: async_run.induct)
  case (async_more ls evs g l ev g')
  have "ap_router (app_of g) = ap_router st"
    using async_accounts[OF async_more(1)] by (simp add: accounts_def)
  with async_step_tasks[OF async_more(2)] async_more.IH show ?case by simp
qed (simp add: log_ok_def)

section \<open>What the clients received\<close>

fun poll_output :: "nat \<Rightarrow> step_label \<Rightarrow> relay_poll list" where
  "poll_output i (Polled j out) = (if j = i then [out] else [])"
| "poll_output i l = []"

text \<open>The chunks that the client of the \<open>i\<close>-th stream got in the course of a run.\<close>

definition received :: "nat \<Rightarrow> step_label list \<Rightarrow> bytes list" where
  "received i ls = delivered (concat (map (poll_output i) ls))"

lemma delivered_append [simp]: "delivered (xs @ ys) = delivered xs @ delivered ys"
  by (induction xs rule: delivered.induct) simp_all

lemma received_simps [simp]:
  "received i [] = []" "received i (ls @ [l]) = received i ls @ delivered (poll_output i l)"
  by (simp_all add: received_def)

text \<open>
  A stream tracks its client: while it can still report, its scanner has seen exactly what the client got;
  afterwards its summary holds what the scanner made of that, and nothing more is delivered.
\<close>

definition tracks :: "(bytes \<Rightarrow> usage option option) \<Rightarrow> bytes list \<Rightarrow> live_stream \<Rightarrow> bool" where
  "tracks p chunks s \<longleftrightarrow>
     (let r = relay_of s; sc = feed_all p chunks new_scanner
      in if ry_reporter r then \<not> ry_finished r \<and> \<not> lv_dropped s \<and> ry_sent r = [] \<and> ry_scanner r = sc
         else (ry_finished r \<or> lv_dropped s) \<and> map sm_usage (ry_sent r) = [sc_last_usage sc])"

lemma feed_all_snoc: "feed_all p (cs @ [c]) s = feed p c (feed_all p cs s)"
  by (simp add: feed_all_def)

lemma tracks_poll:
  assumes "tracks p chunks s" and "\<not> lv_dropped s"
  shows "tracks p (chunks @ delivered [fst (poll_next p timer up now (relay_of s))])
    (with_relay (snd (poll_next p timer up now (relay_of s))) s)"
  using assms
  by (auto simp: tracks_def poll_next_def report_def feed_all_snoc Let_def split: upstream_poll.split if_splits)

lemma tracks_drop:
  assumes "tracks p chunks s"
  shows "tracks p chunks ((with_relay (relay_drop (relay_of s)) s)\<lparr>lv_dropped := True\<rparr>)"
  using assms by (auto simp: tracks_def relay_drop_def report_def Let_def with_relay_def)

lemma tracks_booking: "tracks p chunks (s\<lparr>lv_booking := b\<rparr>) = tracks p chunks s"
  by (simp add: tracks_def)

lemma tracks_fresh: "fresh_stream s \<Longrightarrow> tracks p [] s"
  by (auto simp: fresh_stream_def tracks_def relay_new_def)

definition all_track :: "'g environment \<Rightarrow> step_label list \<Rightarrow> live_stream list \<Rightarrow> bool" where
  "all_track en ls ss \<longleftrightarrow> (\<forall>i. if i < length ss then tracks (en_parse_env en) (received i ls) (ss ! i) else received i ls = [])"

lemma all_track_update:
  assumes "all_track en ls ss" and "i < length ss"
    and "tracks (en_parse_env en) (received i ls @ delivered (poll_output i l)) s"
    and "\<And>j. j \<noteq> i \<Longrightarrow> poll_output j l = []"
  shows "all_track en (ls @ [l]) (ss[i := s])"
  using assms by (auto simp: all_track_def nth_list_update)

lemma all_track_append:
  assumes "all_track en ls ss" and "\<forall>s \<in> set ts. fresh_stream s" and "\<And>i. poll_output i l = []"
  shows "all_track en (ls @ [l]) (ss @ ts)"
  using assms tracks_fresh by (auto simp: all_track_def nth_append)

lemma stream_step_tracks:
  assumes "stream_step en g l g'" and "all_track en ls (gw_streams g)"
  shows "all_track en (ls @ [l]) (gw_streams g')"
  using assms
proof (induction rule: stream_step.induct)
  case (poll i g s up now)
  then have "tracks (en_parse_env en) (received i ls) s" by (auto simp: all_track_def)
  from tracks_poll[OF this poll(3)] show ?case using poll by (auto intro!: all_track_update)
next
  case (drop i g s)
  then have "tracks (en_parse_env en) (received i ls) s" by (auto simp: all_track_def)
  from tracks_drop[OF this] show ?case using drop by (auto intro!: all_track_update)
next
  case (summarise i g s summary rest)
  then have "tracks (en_parse_env en) (received i ls) s" by (auto simp: all_track_def)
  then show ?case using summarise by (auto intro!: all_track_update simp: tracks_booking)
next
  case (book i g s op ops now)
  then have "tracks (en_parse_env en) (received i ls) s" by (auto simp: all_track_def)
  then show ?case using book by (auto intro!: all_track_update simp: tracks_booking)
qed

lemma async_tracks:
  assumes "async_run en (fresh_gateway st) ls evs g"
  shows "all_track en ls (streams_of g)"
  using assms
proof (induction rule: async_run.induct)
  case async_start
  then show ?case by (simp add: all_track_def booted_def)
next
  case (async_more ls evs g l ev g')
  from async_more(2) show ?case
  proof cases
    case (reply i rsp)
    then have "response_ok rsp" using async_gateway_ok[OF async_more(1)] by (metis gateway_ok_def nth_mem reply_ok_simps(5) snd_conv)
    then have "\<forall>s \<in> set (opened rsp). fresh_stream s" using opened_fresh by blast
    with reply show ?thesis using all_track_append[OF async_more.IH, of "opened rsp" l] by simp
  next
    case (streaming gw)
    then show ?thesis using stream_step_tracks async_more.IH by simp
  qed (use all_track_append[OF async_more.IH, of "[]" l] in auto)
qed

text \<open>The last usage of the event stream that a client received.\<close>

definition usage_received :: "'g environment \<Rightarrow> nat \<Rightarrow> step_label list \<Rightarrow> usage option" where
  "usage_received en i ls =
     last_option (List.map_filter (usage_of (en_parse_env en)) (stream_payloads (concat (received i ls))))"

text \<open>
  A stream whose accounting task has its summary: what it was charged and what it still is to be charged is
  the usage its client received.
\<close>

lemma summary_received:
  assumes "async_run en (fresh_gateway st) ls evs g" and "i < length (streams_of g)"
    and "length (concat (received i ls)) \<le> max_event_buffer" and "lv_booking (streams_of g ! i) = Some ops"
  shows "summary_charge (lv_task (streams_of g ! i)) (hd (ry_sent (relay_of (streams_of g ! i)))) =
    charge_of (st_key (lv_task (streams_of g ! i))) (usage_received en i ls)"
proof -
  let ?s = "streams_of g ! i" and ?p = "en_parse_env en"
  have "stream_ok ?s" using async_gateway_ok[OF assms(1)] assms(2) by (simp add: gateway_ok_def)
  then have nr: "\<not> ry_reporter (relay_of ?s)" using assms(4) by (simp add: stream_ok_def)
  have "tracks ?p (received i ls) ?s" using async_tracks[OF assms(1)] assms(2) by (simp add: all_track_def)
  then have "map sm_usage (ry_sent (relay_of ?s)) = [sc_last_usage (feed_all ?p (received i ls) new_scanner)]"
    using nr by (simp add: tracks_def Let_def)
  then have u: "sm_usage (hd (ry_sent (relay_of ?s))) = sc_last_usage (feed_all ?p (received i ls) new_scanner)"
    by (cases "ry_sent (relay_of ?s)") auto
  have "\<not> sc_overflowed (feed_all ?p (received i ls) new_scanner)"
    using assms(3) by (intro short_stream_no_overflow) simp_all
  from summary_usage(1)[OF this] have "sm_usage (hd (ry_sent (relay_of ?s))) = usage_received en i ls"
    by (simp add: u usage_received_def summary_of_def Let_def)
  then show ?thesis by (simp add: summary_charge_def)
qed

text \<open>What a stream was charged, and what is still due for it.\<close>

lemma settled_and_due:
  assumes "stream_ok s"
  shows "settled s @ ops_charges (still_due s) =
    (if lv_booking s = None then [] else summary_charge (lv_task s) (hd (ry_sent (relay_of s))))"
proof (cases "lv_booking s")
  case (Some ops)
  let ?all = "accounting_task (lv_task s) (Some (hd (ry_sent (relay_of s))))"
  obtain before where b: "?all = before @ ops"
    using stream_ok_due[OF assms Some] by (auto simp: suffix_def)
  have "ops_charges ops = [] \<or> ops_charges ops = summary_charge (lv_task s) (hd (ry_sent (relay_of s)))"
    using task_charges(1)[of "lv_task s" "hd (ry_sent (relay_of s))"]
    by (auto simp: b summary_charge_def charge_of_def append_eq_Cons_conv split: option.splits)
  then show ?thesis by (auto simp: settled_def still_due_def Some)
qed (simp add: settled_def still_due_def)

lemma streams_charged:
  assumes "async_run en (fresh_gateway st) ls evs g"
    and "\<And>i. i < length (streams_of g) \<Longrightarrow> length (concat (received i ls)) \<le> max_event_buffer"
  shows "mset (concat (map stream_charges ls)) + mset (stream_dues g) =
    mset (concat (map (\<lambda>i. if lv_booking (streams_of g ! i) = None then []
                         else charge_of (st_key (lv_task (streams_of g ! i))) (usage_received en i ls))
                   [0 ..< length (streams_of g)]))"
proof -
  let ?ss = "streams_of g"
  have both: "mset (concat (map f xs)) + mset (concat (map h xs)) = mset (concat (map (\<lambda>x. f x @ h x) xs))"
    for f h :: "live_stream \<Rightarrow> (string \<times> usage) list" and xs
    by (induction xs) (simp_all add: ac_simps)
  have "map (\<lambda>s. settled s @ ops_charges (still_due s)) ?ss =
      map (\<lambda>i. settled (?ss ! i) @ ops_charges (still_due (?ss ! i))) [0 ..< length ?ss]"
    by (rule nth_equalityI) simp_all
  also have "\<dots> = map (\<lambda>i. if lv_booking (?ss ! i) = None then []
      else charge_of (st_key (lv_task (?ss ! i))) (usage_received en i ls)) [0 ..< length ?ss]"
  proof (rule map_cong[OF refl])
    fix i assume "i \<in> set [0 ..< length ?ss]"
    then have i: "i < length ?ss" by simp
    then have "stream_ok (?ss ! i)" using async_gateway_ok[OF assms(1)] by (simp add: gateway_ok_def)
    from settled_and_due[OF this] summary_received[OF assms(1) i assms(2)[OF i]]
    show "settled (?ss ! i) @ ops_charges (still_due (?ss ! i)) =
        (if lv_booking (?ss ! i) = None then [] else charge_of (st_key (lv_task (?ss ! i))) (usage_received en i ls))"
      by (cases "lv_booking (?ss ! i)") simp_all
  qed
  finally show ?thesis
    using async_settled[OF assms(1)] both[of settled ?ss "ops_charges \<circ> still_due"] by (simp add: stream_dues_def comp_def)
qed

section \<open>An uninterrupted request is one interleaving\<close>

lemma ops_alone:
  "\<exists>ls. async_run en \<lparr>as_gateway = \<lparr>gw_app = st, gw_streams = ss\<rparr>, as_tasks = ts @ [(ops, t)]\<rparr> ls []
     \<lparr>as_gateway = \<lparr>gw_app = perform_all now ops st, gw_streams = ss\<rparr>, as_tasks = ts @ [([], t)]\<rparr>"
proof (induction ops arbitrary: st)
  case Nil
  then show ?case using async_run.async_start by fastforce
next
  case (Cons op ops)
  let ?g = "\<lparr>as_gateway = \<lparr>gw_app = st, gw_streams = ss\<rparr>, as_tasks = ts @ [(op # ops, t)]\<rparr>"
  have "async_step en ?g (Performed op) []
      \<lparr>as_gateway = \<lparr>gw_app = perform now op st, gw_streams = ss\<rparr>, as_tasks = ts @ [(ops, t)]\<rparr>"
    using async_step.perform_next[of "length ts" ?g op ops t en now] by simp
  note first = async_single[OF this]
  obtain ls where "async_run en \<lparr>as_gateway = \<lparr>gw_app = perform now op st, gw_streams = ss\<rparr>, as_tasks = ts @ [(ops, t)]\<rparr> ls []
      \<lparr>as_gateway = \<lparr>gw_app = perform_all now ops (perform now op st), gw_streams = ss\<rparr>, as_tasks = ts @ [([], t)]\<rparr>"
    using Cons.IH by blast
  from async_run_trans[OF this first] show ?case by fastforce
qed

lemma task_alone:
  assumes "run_chat (en_externals en) w n (t, st, tr0) = (Replied rsp, st', tr)"
  shows "\<exists>ls evs. async_run en \<lparr>as_gateway = \<lparr>gw_app = st, gw_streams = ss\<rparr>, as_tasks = ts @ [([], t)]\<rparr> ls evs
    \<lparr>as_gateway = \<lparr>gw_app = st', gw_streams = ss\<rparr>, as_tasks = ts @ [([], Replied rsp)]\<rparr>"
  using assms
proof (induction n arbitrary: t st tr0)
  case 0
  then show ?case using async_run.async_start by fastforce
next
  case (Suc n)
  show ?case
  proof (cases "chat_step (en_externals en) (world_moment w t) (world_wake w t) t")
    case None
    then show ?thesis using Suc.prems async_run.async_start by fastforce
  next
    case (Some r)
    obtain t1 ops tr1 where r: "r = (t1, ops, tr1)" by (cases r)
    have "task_call t \<noteq> None" using Some chat_step_awaits awaited(2) by (metis option.distinct(1))
    then obtain c where c: "task_call t = Some c" by blast
    let ?g = "\<lparr>as_gateway = \<lparr>gw_app = st, gw_streams = ss\<rparr>, as_tasks = ts @ [([], t)]\<rparr>"
    have "async_step en ?g (Woken (ca_identity c) (world_wake w t)) (map (Pair (ca_identity c)) tr1)
        \<lparr>as_gateway = \<lparr>gw_app = st, gw_streams = ss\<rparr>, as_tasks = ts @ [(ops, t1)]\<rparr>"
      using async_step.resume[of "length ts" ?g t c en "world_moment w t" "world_wake w t" t1 ops tr1] Some r c by simp
    note first = async_single[OF this]
    obtain ls2 where second: "async_run en \<lparr>as_gateway = \<lparr>gw_app = st, gw_streams = ss\<rparr>, as_tasks = ts @ [(ops, t1)]\<rparr> ls2 []
        \<lparr>as_gateway = \<lparr>gw_app = perform_all (wo_now w) ops st, gw_streams = ss\<rparr>, as_tasks = ts @ [([], t1)]\<rparr>"
      using ops_alone by blast
    have "run_chat (en_externals en) w n (t1, perform_all (wo_now w) ops st, tr0 @ tr1) = (Replied rsp, st', tr)"
      using Suc.prems Some r by simp
    from Suc.IH[OF this] obtain ls evs where "async_run en
        \<lparr>as_gateway = \<lparr>gw_app = perform_all (wo_now w) ops st, gw_streams = ss\<rparr>, as_tasks = ts @ [([], t1)]\<rparr> ls evs
        \<lparr>as_gateway = \<lparr>gw_app = st', gw_streams = ss\<rparr>, as_tasks = ts @ [([], Replied rsp)]\<rparr>" by blast
    from async_run_trans[OF this async_run_trans[OF second first]] show ?thesis by blast
  qed
qed

lemma chat_alone:
  assumes "chat_of en (ap_keys st) req = Some (identity, body)"
    and "chat_completions (en_externals en) w identity body st = (rsp, st', tr)"
  shows "\<exists>ls evs. async_run en \<lparr>as_gateway = \<lparr>gw_app = st, gw_streams = ss\<rparr>, as_tasks = ts\<rparr> ls evs
    \<lparr>as_gateway = \<lparr>gw_app = st', gw_streams = ss @ opened rsp\<rparr>, as_tasks = ts\<rparr>"
proof -
  let ?g = "\<lparr>as_gateway = \<lparr>gw_app = st, gw_streams = ss\<rparr>, as_tasks = ts\<rparr>"
  obtain t st0 ops tr0 where b: "begin_chat (en_externals en) (wo_instant w) identity body st = (t, st0, ops, tr0)"
    by (metis prod_cases4)
  have "run_chat (en_externals en) w 17 (t, perform_all (wo_now w) ops st0, tr0) = (Replied rsp, st', tr)"
    using turns_equal_handler[OF b] assms(2) by simp
  from task_alone[OF this] obtain ls3 evs3 where third: "async_run en
      \<lparr>as_gateway = \<lparr>gw_app = perform_all (wo_now w) ops st0, gw_streams = ss\<rparr>, as_tasks = ts @ [([], t)]\<rparr> ls3 evs3
      \<lparr>as_gateway = \<lparr>gw_app = st', gw_streams = ss\<rparr>, as_tasks = ts @ [([], Replied rsp)]\<rparr>" by blast
  have "async_step en ?g Quiet (map (Pair identity) tr0)
      \<lparr>as_gateway = \<lparr>gw_app = st0, gw_streams = ss\<rparr>, as_tasks = ts @ [(ops, t)]\<rparr>"
    using async_step.arrive[of en ?g req identity body "wo_instant w" t st0 ops tr0] assms(1) b by simp
  note first = async_single[OF this]
  obtain ls2 where second: "async_run en \<lparr>as_gateway = \<lparr>gw_app = st0, gw_streams = ss\<rparr>, as_tasks = ts @ [(ops, t)]\<rparr> ls2 []
      \<lparr>as_gateway = \<lparr>gw_app = perform_all (wo_now w) ops st0, gw_streams = ss\<rparr>, as_tasks = ts @ [([], t)]\<rparr>"
    using ops_alone by blast
  have "async_step en \<lparr>as_gateway = \<lparr>gw_app = st', gw_streams = ss\<rparr>, as_tasks = ts @ [([], Replied rsp)]\<rparr> Quiet []
      \<lparr>as_gateway = \<lparr>gw_app = st', gw_streams = ss @ opened rsp\<rparr>, as_tasks = ts\<rparr>"
    using async_step.reply[of "length ts" "\<lparr>as_gateway = \<lparr>gw_app = st', gw_streams = ss\<rparr>, as_tasks = ts @ [([], Replied rsp)]\<rparr>" rsp en]
    by (simp add: without_def)
  from async_run_trans[OF async_single[OF this] async_run_trans[OF third async_run_trans[OF second first]]]
  show ?thesis by blast
qed

end
