(* ===== verification/Startup.thy ===== *)
theory Startup
  imports Server
begin

text \<open>
  \<open>src/main.rs\<close>, from the start of the process to the bound listener, with the lines it logs.  What
  follows, \<open>axum::serve\<close> with its graceful shutdown, is the work of a library.
\<close>

section \<open>Start-up\<close>

text \<open>
  The machine the process starts on: the environment, the files that may hold a configuration, the
  parsers, the builder of the HTTP client, the limiter of the governor, the clock, and the listener.
\<close>

record ('g, 'addr) host =
  ho_env :: env
  ho_files :: "string \<Rightarrow> (string + string) option"
  ho_toml :: "string \<Rightarrow> string + raw_config"
  ho_addr :: "string \<Rightarrow> 'addr option"
  ho_client :: "string + unit"
  ho_keyed :: "u32 \<Rightarrow> 'g"
  ho_from_json :: "string \<Rightarrow> ledger_snapshot option"
  ho_clock :: u64
  ho_fs :: fs
  ho_bind :: "'addr \<Rightarrow> string + unit"

datatype start_error =
    ConfigFailure config_error
  | StateFailure string
  | BindFailure string

datatype 'addr log_line =
    ConfigurationLoaded nat nat policy_selection
  | BackendRegistered string privacy "string list" "string list"
  | ListeningOn 'addr

definition registered :: "backend \<Rightarrow> 'addr log_line" where
  "registered b = BackendRegistered (be_name b) (be_privacy b) (be_models b) (be_capability_tags b)"

definition config_log :: "'addr gateway_config \<Rightarrow> 'addr log_line list" where
  "config_log cfg =
     ConfigurationLoaded (length (cfg_backends cfg)) (length (cfg_virtual_keys cfg)) (cfg_policy cfg)
       # map registered (cfg_backends cfg)"

text \<open>
  The logged lines, and the outcome: no outcome is a panic, \<open>Inl\<close> the error \<open>main\<close> returns,
  \<open>Inr\<close> the configuration and the state of the bound server.
\<close>

definition startup ::
  "('g, 'addr) host \<Rightarrow> 'addr log_line list \<times> (start_error + 'addr gateway_config \<times> 'g app_state) option" where
  "startup h =
     (case load (ho_toml h) (ho_addr h) (ho_env h) (ho_files h) of
        Inl e \<Rightarrow> ([], Some (Inl (ConfigFailure e)))
      | Inr cfg \<Rightarrow>
          (case app_state_from_config (ho_client h) (ho_keyed h) (ho_from_json h) (ho_clock h) (ho_fs h) cfg of
             None \<Rightarrow> (config_log cfg, None)
           | Some (Inl m) \<Rightarrow> (config_log cfg, Some (Inl (StateFailure m)))
           | Some (Inr st) \<Rightarrow>
               (config_log cfg @ [ListeningOn (cfg_listen cfg)],
                Some (case ho_bind h (cfg_listen cfg) of
                  Inl m \<Rightarrow> Inl (BindFailure m)
                | Inr _ \<Rightarrow> Inr (cfg, st)))))"

text \<open>
  \<open>starts cfg st\<close>: \<open>st\<close> is the state that \<open>AppState::from_config\<close> builds for \<open>cfg\<close>.
\<close>

definition starts :: "'addr gateway_config \<Rightarrow> 'g app_state \<Rightarrow> bool" where
  "starts cfg st \<longleftrightarrow> (\<exists>new_client keyed from_json now fs.
     app_state_from_config new_client keyed from_json now fs cfg = Some (Inr st))"

lemma starts_state:
  assumes "starts cfg st"
  shows "ap_keys st = from_virtual_keys (cfg_virtual_keys cfg)" "rs_limits (ap_limits st) = Map.empty"
    "ap_metrics st = metrics_new" "ro_backends (ap_router st) = cfg_backends cfg"
    "router_from_config cfg = Some (ap_router st)" "used_tokens (ap_budget st) key = (0, 0, 0)"
  using assms
  by (auto simp: starts_def app_state_from_config_def result_simps rate_store_new_def ledger_new_def Let_def
      router_from_config_def with_policy_def used_tokens_def usage_for_def split: policy_selection.splits)

text \<open>A loaded configuration always gives a router, so the state fails only with the HTTP client.\<close>

lemma loaded_router:
  assumes "load toml_parse parse_addr env fs = Inr cfg"
  shows "wf_config cfg" "router_from_config cfg \<noteq> None"
proof -
  show wf: "wf_config cfg" using assms by (auto simp: load_Inr_iff wf_resolved_config)
  then have "wf_policy (cfg_policy cfg)" by (simp add: wf_config_def)
  then show "router_from_config cfg \<noteq> None"
    by (cases "cfg_policy cfg") (auto simp: router_from_config_def with_policy_def ewma_new_def)
qed

lemma state_of_loaded:
  assumes "load toml_parse parse_addr env files = Inr cfg"
  shows "case app_state_from_config (Inl m) keyed from_json now fs cfg of Some (Inl e) \<Rightarrow> e = m | _ \<Rightarrow> False"
    and "case app_state_from_config (Inr ()) keyed from_json now fs cfg of Some (Inr st) \<Rightarrow> starts cfg st | _ \<Rightarrow> False"
proof -
  obtain r where r: "router_from_config cfg = Some r" using loaded_router(2)[OF assms] by blast
  show "case app_state_from_config (Inl m) keyed from_json now fs cfg of Some (Inl e) \<Rightarrow> e = m | _ \<Rightarrow> False"
    by (simp add: app_state_from_config_def r)
  have "\<exists>st. app_state_from_config (Inr ()) keyed from_json now fs cfg = Some (Inr st)"
    by (simp add: app_state_from_config_def r)
  then obtain st where st: "app_state_from_config (Inr ()) keyed from_json now fs cfg = Some (Inr st)" by blast
  then have "starts cfg st" unfolding starts_def by blast
  with st show "case app_state_from_config (Inr ()) keyed from_json now fs cfg of Some (Inr st) \<Rightarrow> starts cfg st | _ \<Rightarrow> False"
    by simp
qed

lemma startup_outcome:
  "case load (ho_toml h) (ho_addr h) (ho_env h) (ho_files h) of
     Inl e \<Rightarrow> startup h = ([], Some (Inl (ConfigFailure e)))
   | Inr cfg \<Rightarrow>
       (case ho_client h of
          Inl m \<Rightarrow> startup h = (config_log cfg, Some (Inl (StateFailure m)))
        | Inr _ \<Rightarrow>
            fst (startup h) = config_log cfg @ [ListeningOn (cfg_listen cfg)] \<and>
            (case ho_bind h (cfg_listen cfg) of
               Inl m \<Rightarrow> snd (startup h) = Some (Inl (BindFailure m))
             | Inr _ \<Rightarrow> wf_config cfg \<and> (\<exists>st. starts cfg st \<and> snd (startup h) = Some (Inr (cfg, st)))))"
proof (cases "load (ho_toml h) (ho_addr h) (ho_env h) (ho_files h)")
  case (Inr cfg)
  note l = state_of_loaded[OF Inr, where keyed = "ho_keyed h" and from_json = "ho_from_json h"
      and now = "ho_clock h" and fs = "ho_fs h"]
  show ?thesis
  proof (cases "ho_client h")
    case (Inl m)
    with l(1)[of m] Inr show ?thesis
      by (auto simp: startup_def split: option.splits sum.splits)
  next
    case (Inr u)
    with l(2) \<open>load _ _ _ _ = Inr cfg\<close> loaded_router(1)[OF \<open>load _ _ _ _ = Inr cfg\<close>] show ?thesis
      by (auto simp: startup_def split: option.splits sum.splits)
  qed
qed (simp add: startup_def)

text \<open>C16: start-up reports the first failure and nothing else stops it: the process never panics on its way
  up; it ends with the configuration's error exactly when loading fails, having logged nothing, with
  the client's error when the configuration is fine, with the listener's when state and configuration
  are; otherwise it serves, from a well-formed configuration and the state built for it.  The line
  that announces the address is logged before the socket is bound, so also when binding fails.\<close>
theorem startup_exact:
  "case load (ho_toml h) (ho_addr h) (ho_env h) (ho_files h) of
     Inl e \<Rightarrow> startup h = ([], Some (Inl (ConfigFailure e)))
   | Inr cfg \<Rightarrow>
       (case ho_client h of
          Inl m \<Rightarrow> startup h = (config_log cfg, Some (Inl (StateFailure m)))
        | Inr _ \<Rightarrow>
            fst (startup h) = config_log cfg @ [ListeningOn (cfg_listen cfg)] \<and>
            (case ho_bind h (cfg_listen cfg) of
               Inl m \<Rightarrow> snd (startup h) = Some (Inl (BindFailure m))
             | Inr _ \<Rightarrow> wf_config cfg \<and> (\<exists>st. starts cfg st \<and> snd (startup h) = Some (Inr (cfg, st)))))"
  by (rule startup_outcome)

section \<open>What start-up reveals\<close>

text \<open>
  Two environments are \<open>secret_equiv\<close> for a configuration file if the variables that hold base URLs have
  the same values, the same variables are set, and the values of the virtual keys have the same emptiness
  and the same coincidences (both are reported as errors); the values of API keys are arbitrary, and
  those of virtual keys are otherwise.
\<close>

definition secret_equiv :: "raw_config \<Rightarrow> env \<Rightarrow> env \<Rightarrow> bool" where
  "secret_equiv raw e1 e2 \<longleftrightarrow>
     list_all (\<lambda>b. e1 (rb_base_url_env b) = e2 (rb_base_url_env b)) (raw_backends raw) \<and>
     (\<forall>v. (e1 v = None) = (e2 v = None)) \<and>
     list_all (\<lambda>k. (e1 (rv_key_env k) = Some []) = (e2 (rv_key_env k) = Some [])) (raw_virtual_keys raw) \<and>
     list_all (\<lambda>k. list_all (\<lambda>k'. (e1 (rv_key_env k) = e1 (rv_key_env k')) = (e2 (rv_key_env k) = e2 (rv_key_env k')))
       (raw_virtual_keys raw)) (raw_virtual_keys raw)"

text \<open>A configuration with its secrets blanked.\<close>

definition blank_backend :: "backend \<Rightarrow> backend" where
  "blank_backend b = b\<lparr>be_api_key := map_option (\<lambda>_. Secret []) (be_api_key b)\<rparr>"

definition blank_key :: "virtual_key \<Rightarrow> virtual_key" where
  "blank_key k = k\<lparr>vk_key := Secret []\<rparr>"

definition blank :: "'addr gateway_config \<Rightarrow> 'addr gateway_config" where
  "blank cfg = cfg\<lparr>cfg_backends := map blank_backend (cfg_backends cfg),
     cfg_virtual_keys := map blank_key (cfg_virtual_keys cfg)\<rparr>"

lemma map_sum_and_then:
  "map_sum id f (and_then r g) = and_then r (\<lambda>x. map_sum id f (g x))"
  by (cases r) simp_all

lemma blank_resolved_backend:
  assumes "e1 (rb_base_url_env b) = e2 (rb_base_url_env b)" and "\<forall>v. (e1 v = None) = (e2 v = None)"
  shows "map_sum id blank_backend (resolve_backend e1 b) = map_sum id blank_backend (resolve_backend e2 b)"
proof -
  have "(\<exists>x. e1 v = Some x) \<longleftrightarrow> (\<exists>x. e2 v = Some x)" for v using assms(2) by (metis not_None_eq)
  from this[of "the (rb_api_key_env b)"]
  have "map_sum id (map_option (\<lambda>_. Secret [])) (resolve_api_key e1 b) =
      map_sum id (map_option (\<lambda>_. Secret [])) (resolve_api_key e2 b)"
    by (cases "rb_api_key_env b") (auto simp: resolve_api_key_def and_then_def ok_or_def
        ensure_that_def split: option.split)
  moreover have "resolve_base_url e1 b = resolve_base_url e2 b"
    using assms(1) by (simp add: resolve_base_url_def)
  ultimately show ?thesis
    by (cases "resolve_api_key e1 b"; cases "resolve_api_key e2 b"; cases "resolve_base_url e2 b")
      (auto simp: resolve_backend_def map_sum_and_then blank_backend_def and_then_def ensure_that_def)
qed

lemma blank_resolved_backends:
  assumes "\<forall>b \<in> set bs. e1 (rb_base_url_env b) = e2 (rb_base_url_env b)" and "\<forall>v. (e1 v = None) = (e2 v = None)"
  shows "map_sum id (map blank_backend) (resolve_backends e1 names bs) =
    map_sum id (map blank_backend) (resolve_backends e2 names bs)"
  using assms(1)
proof (induction bs arbitrary: names)
  case (Cons b bs)
  have b: "map_sum id blank_backend (resolve_backend e1 b) = map_sum id blank_backend (resolve_backend e2 b)"
    using Cons.prems by (intro blank_resolved_backend assms(2)) simp
  have bs: "map_sum id (map blank_backend) (resolve_backends e1 (insert (rb_name b) names) bs) =
      map_sum id (map blank_backend) (resolve_backends e2 (insert (rb_name b) names) bs)"
    by (rule Cons.IH) (use Cons.prems in simp)
  show ?case
    using b bs
    by (cases "resolve_backend e1 b"; cases "resolve_backend e2 b";
        cases "resolve_backends e1 (insert (rb_name b) names) bs";
        cases "resolve_backends e2 (insert (rb_name b) names) bs")
      (auto simp: and_then_def ensure_that_def)
qed simp

text \<open>The maps of the secrets seen so far correspond.\<close>

lemma blank_key_fields:
  "blank_key \<lparr>vk_name = n, vk_key = s, vk_enforce_private = p\<rparr> = \<lparr>vk_name = n, vk_key = Secret [], vk_enforce_private = p\<rparr>"
  by (simp add: blank_key_def)

lemma blank_resolved_keys:
  assumes "\<forall>v. (e1 v = None) = (e2 v = None)"
    and "\<forall>k \<in> set ks. (e1 (rv_key_env k) = Some []) = (e2 (rv_key_env k) = Some [])"
    and "\<forall>k \<in> set ks. \<forall>k' \<in> set ks.
      (e1 (rv_key_env k) = e1 (rv_key_env k')) = (e2 (rv_key_env k) = e2 (rv_key_env k'))"
    and "\<forall>k \<in> set ks. \<forall>s1 s2. e1 (rv_key_env k) = Some s1 \<longrightarrow> e2 (rv_key_env k) = Some s2 \<longrightarrow> m1 s1 = m2 s2"
  shows "map_sum id (map blank_key) (resolve_virtual_keys e1 names m1 ks) =
    map_sum id (map blank_key) (resolve_virtual_keys e2 names m2 ks)"
  using assms(2-)
proof (induction ks arbitrary: names m1 m2)
  case (Cons k ks)
  show ?case
  proof (cases "e1 (rv_key_env k)")
    case None
    with assms(1) have "e2 (rv_key_env k) = None" by simp
    with None show ?thesis by (auto simp: and_then_def ensure_that_def ok_or_def)
  next
    case (Some s1)
    then obtain s2 where s2: "e2 (rv_key_env k) = Some s2" using assms(1) by (metis not_None_eq)
    have seen: "m1 s1 = m2 s2" and empty: "s1 = [] \<longleftrightarrow> s2 = []"
      using Cons.prems(1,3) Some s2 by auto
    let ?m1 = "m1(s1 \<mapsto> rv_name k)" and ?m2 = "m2(s2 \<mapsto> rv_name k)"
    have "?m1 t1 = ?m2 t2" if "k' \<in> set ks" "e1 (rv_key_env k') = Some t1" "e2 (rv_key_env k') = Some t2" for k' t1 t2
    proof -
      have "t1 = s1 \<longleftrightarrow> t2 = s2"
        using Cons.prems(2) that Some s2 by (metis list.set_intros option.inject)
      moreover have "m1 t1 = m2 t2" using Cons.prems(3) that by simp
      ultimately show ?thesis by simp
    qed
    then have rest: "map_sum id (map blank_key) (resolve_virtual_keys e1 (insert (rv_name k) names) ?m1 ks) =
        map_sum id (map blank_key) (resolve_virtual_keys e2 (insert (rv_name k) names) ?m2 ks)"
      using Cons.prems(1,2) by (intro Cons.IH) simp_all
    show ?thesis
      using rest seen empty Some s2
      by (cases "resolve_virtual_keys e1 (insert (rv_name k) names) ?m1 ks";
          cases "resolve_virtual_keys e2 (insert (rv_name k) names) ?m2 ks")
        (auto simp: and_then_def ensure_that_def ok_or_def blank_key_fields split: option.split)
  qed
qed simp


lemma blank_parsed:
  assumes "\<And>raw. toml_parse text = Inr raw \<Longrightarrow> secret_equiv raw e1 e2"
  shows "map_sum id blank (from_toml_str toml_parse parse_addr text e1) =
    map_sum id blank (from_toml_str toml_parse parse_addr text e2)"
proof (cases "toml_parse text")
  case (Inr raw)
  then have eq: "secret_equiv raw e1 e2" by (rule assms)
  have backends: "map_sum id (map blank_backend) (resolve_backends e1 {} (raw_backends raw)) =
      map_sum id (map blank_backend) (resolve_backends e2 {} (raw_backends raw))"
    using eq by (intro blank_resolved_backends) (auto simp: secret_equiv_def list_all_iff)
  have keys: "map_sum id (map blank_key) (resolve_virtual_keys e1 {} Map.empty (raw_virtual_keys raw)) =
      map_sum id (map blank_key) (resolve_virtual_keys e2 {} Map.empty (raw_virtual_keys raw))"
    using eq by (intro blank_resolved_keys) (auto simp: secret_equiv_def list_all_iff)
  show ?thesis
    using backends keys
    by (cases "resolve_backends e1 {} (raw_backends raw)"; cases "resolve_backends e2 {} (raw_backends raw)";
        cases "resolve_virtual_keys e1 {} Map.empty (raw_virtual_keys raw)";
        cases "resolve_virtual_keys e2 {} Map.empty (raw_virtual_keys raw)";
        cases "resolve_policy (raw_policy raw)"; cases "parse_addr (raw_listen raw)")
      (auto simp: from_toml_str_def Inr and_then_def ensure_that_def ok_or_def blank_def)
qed (simp add: from_toml_str_def)

lemma log_of_blank:
  assumes "blank cfg = blank cfg'"
  shows "config_log cfg = config_log cfg'" "cfg_listen cfg = cfg_listen cfg'" "cfg_policy cfg = cfg_policy cfg'"
proof -
  obtain l bs ks p where c: "cfg = \<lparr>cfg_listen = l, cfg_backends = bs, cfg_virtual_keys = ks, cfg_policy = p\<rparr>"
    by (cases cfg)
  obtain l' bs' ks' p' where c': "cfg' = \<lparr>cfg_listen = l', cfg_backends = bs', cfg_virtual_keys = ks', cfg_policy = p'\<rparr>"
    by (cases cfg')
  have b: "registered (blank_backend b) = registered b" for b by (simp add: registered_def blank_backend_def)
  have e: "l = l'" "map blank_backend bs = map blank_backend bs'" "map blank_key ks = map blank_key ks'" "p = p'"
    using assms by (simp_all add: c c' blank_def)
  have "map registered bs = map registered bs'"
    using arg_cong[OF e(2), of "map registered"] by (simp add: comp_def b)
  moreover have "length bs = length bs'" "length ks = length ks'"
    using e(2,3) by (auto dest: map_eq_imp_length_eq)
  ultimately show "config_log cfg = config_log cfg'" "cfg_listen cfg = cfg_listen cfg'" "cfg_policy cfg = cfg_policy cfg'"
    using e(1,4) by (simp_all add: c c' config_log_def)
qed

text \<open>C17: what start-up reveals of the secrets. Of the API keys the process reveals nothing but which of
  their variables are set, and of the virtual keys nothing but which of their variables are set, which of
  the values are empty and which of them coincide: when two environments agree in these respects, in the
  path of the configuration file and in the base URLs, the process logs the same lines and fails with the
  same error or with none. (Whether a value is empty and whether two coincide does show, as these are the
  errors \<open>EmptyVirtualKey\<close> and \<open>DuplicateVirtualKeySecret\<close>.)\<close>
theorem startup_reveals_no_secret:
  assumes "env' ''PATCHBAY_CONFIG'' = ho_env h ''PATCHBAY_CONFIG''"
    and "\<And>path text raw. path = (case ho_env h ''PATCHBAY_CONFIG'' of None \<Rightarrow> ''patchbay.toml'' | Some p \<Rightarrow> p)
      \<Longrightarrow> ho_files h path = Some (Inr text) \<Longrightarrow> ho_toml h text = Inr raw \<Longrightarrow> secret_equiv raw (ho_env h) env'"
  shows "fst (startup (h\<lparr>ho_env := env'\<rparr>)) = fst (startup h)
    \<and> (\<forall>e. (snd (startup (h\<lparr>ho_env := env'\<rparr>)) = Some (Inl e)) = (snd (startup h) = Some (Inl e)))"
proof -
  let ?h = "h\<lparr>ho_env := env'\<rparr>"
  define path where "path = (case ho_env h ''PATCHBAY_CONFIG'' of None \<Rightarrow> ''patchbay.toml'' | Some p \<Rightarrow> p)"
  have same: "map_sum id blank (load (ho_toml h) (ho_addr h) (ho_env h) (ho_files h)) =
      map_sum id blank (load (ho_toml h) (ho_addr h) env' (ho_files h))"
    using blank_parsed[of "ho_toml h" _ "ho_env h" env' "ho_addr h"] assms(2)[OF path_def]
    by (auto simp: load_def Let_def assms(1) path_def[symmetric] split: option.split sum.split)
  show ?thesis
  proof (cases "load (ho_toml h) (ho_addr h) (ho_env h) (ho_files h)")
    case (Inl e)
    then have "load (ho_toml h) (ho_addr h) env' (ho_files h) = Inl e"
      using same by (cases "load (ho_toml h) (ho_addr h) env' (ho_files h)") auto
    with Inl show ?thesis by (simp add: startup_def)
  next
    case (Inr cfg)
    then obtain cfg' where cfg': "load (ho_toml h) (ho_addr h) env' (ho_files h) = Inr cfg'" "blank cfg' = blank cfg"
      using same by (cases "load (ho_toml h) (ho_addr h) env' (ho_files h)") auto
    note l = log_of_blank[OF cfg'(2)]
    show ?thesis
      using startup_outcome[of h] startup_outcome[of ?h] Inr cfg'(1) l
      by (auto split: sum.splits)
  qed
qed

definition sample_host :: "(nat, unit) host" where
  "sample_host = \<lparr>ho_env = sample_env, ho_files = sample_fs, ho_toml = (\<lambda>_. Inr sample_raw), ho_addr = (\<lambda>_. Some ()),
     ho_client = Inr (), ho_keyed = unat, ho_from_json = (\<lambda>_. None), ho_clock = 0, ho_fs = Map.empty,
     ho_bind = (\<lambda>_. Inr ())\<rparr>"

definition other_secrets :: env where
  "other_secrets = sample_env(''OK'' \<mapsto> ''sk-other'', ''KA'' \<mapsto> ''x'', ''KB'' \<mapsto> ''y'')"

lemma startup_reveals_no_secret_witness:
  "fst (startup (sample_host\<lparr>ho_env := other_secrets\<rparr>)) = fst (startup sample_host)
   \<and> (\<forall>e. (snd (startup (sample_host\<lparr>ho_env := other_secrets\<rparr>)) = Some (Inl e)) = (snd (startup sample_host) = Some (Inl e)))"
  by (rule startup_reveals_no_secret)
    (auto simp: sample_host_def other_secrets_def secret_equiv_def sample_raw_def sample_env_def)

end
