(* ===== verification/Concurrency.thy ===== *)
theory Concurrency
  imports Budget Rate_Limits
begin

text \<open>
  Below the level of whole operations: \<open>BudgetLedger::record\<close> and \<open>TpmCounter::add\<close> as sequences of
  the steps that other threads can interleave with, the lock-protected table accesses and the single
  atomic instructions.  A thread is the position of one call in its code; all threads of a system
  run the same function on shared state.
\<close>

section \<open>Interleaving\<close>

text \<open>A schedule is a sequence of thread numbers; a finished thread has no step.\<close>

inductive conc_step ::
  "('l \<Rightarrow> 's \<Rightarrow> ('s \<times> 'l) option) \<Rightarrow> 's \<times> 'l list \<Rightarrow> 's \<times> 'l list \<Rightarrow> bool" for step where
  "i < length ts \<Longrightarrow> step (ts ! i) s = Some (s', l') \<Longrightarrow> conc_step step (s, ts) (s', ts[i := l'])"

inductive conc_run ::
  "('l \<Rightarrow> 's \<Rightarrow> ('s \<times> 'l) option) \<Rightarrow> 's \<times> 'l list \<Rightarrow> 's \<times> 'l list \<Rightarrow> bool" for step c where
  conc_refl: "conc_run step c c"
| conc_more: "conc_run step c d \<Longrightarrow> conc_step step d e \<Longrightarrow> conc_run step c e"

text \<open>
  Threads that conserve a quantity: what a thread adds to the shared value it takes from what it
  still has pending.  The side conditions are an invariant of the shared state and one of each
  thread, which no other thread's step may break.
\<close>

locale conserving_threads =
  fixes step :: "'l \<Rightarrow> 's \<Rightarrow> ('s \<times> 'l) option"
    and ok_state :: "'s \<Rightarrow> bool"
    and ok_thread :: "'s \<Rightarrow> 'l \<Rightarrow> bool"
    and amount :: "'s \<Rightarrow> u64"
    and pending :: "'l \<Rightarrow> u64"
  assumes step_ok: "step l s = Some (s', l') \<Longrightarrow> ok_state s \<Longrightarrow> ok_thread s l \<Longrightarrow> ok_state s' \<and> ok_thread s' l'"
    and step_stable: "step l s = Some (s', l') \<Longrightarrow> ok_state s \<Longrightarrow> ok_thread s l \<Longrightarrow> ok_thread s m \<Longrightarrow> ok_thread s' m"
    and step_conserves: "step l s = Some (s', l') \<Longrightarrow> ok_state s \<Longrightarrow> ok_thread s l \<Longrightarrow>
      amount s' + pending l' = amount s + pending l"
begin

definition system_ok :: "'s \<times> 'l list \<Rightarrow> bool" where
  "system_ok c \<longleftrightarrow> ok_state (fst c) \<and> list_all (ok_thread (fst c)) (snd c)"

definition whole :: "'s \<times> 'l list \<Rightarrow> u64" where
  "whole c = amount (fst c) + sum_list (map pending (snd c))"

lemma conc_step_conserves:
  assumes "conc_step step c d" and "system_ok c"
  shows "system_ok d \<and> whole d = whole c"
  using assms
proof (induction rule: conc_step.induct)
  case (1 i ts s s' l')
  then have st: "ok_state s" "ok_thread s (ts ! i)" by (auto simp: system_ok_def list_all_length)
  have oks: "list_all (ok_thread s') (ts[i := l'])"
    using 1 st step_ok[OF 1(2) st] step_stable[OF 1(2) st]
    by (auto simp: list_all_length nth_list_update system_ok_def)
  have sum: "sum_list (map pending (ts[i := l'])) + pending (ts ! i) = sum_list (map pending ts) + pending l'"
  proof -
    have "map pending ts = map pending (take i ts) @ pending (ts ! i) # map pending (drop (Suc i) ts)"
      using id_take_nth_drop[OF 1(1)] by (metis list.simps(9) map_append)
    then have "sum_list (map pending ts) = sum_list (map pending (take i ts)) + (pending (ts ! i) +
        sum_list (map pending (drop (Suc i) ts)))" by simp
    then show ?thesis using 1(1) by (simp add: upd_conv_take_nth_drop algebra_simps)
  qed
  from sum have "(amount s' + pending l') + (sum_list (map pending (ts[i := l'])) + pending (ts ! i)) =
      (amount s + pending (ts ! i)) + (sum_list (map pending ts) + pending l')"
    using step_conserves[OF 1(2) st] by simp
  then have "amount s' + sum_list (map pending (ts[i := l'])) = amount s + sum_list (map pending ts)"
    by (simp add: algebra_simps)
  with oks show ?case using step_ok[OF 1(2) st] by (simp add: system_ok_def whole_def)
qed

lemma conc_run_conserves: "conc_run step c d \<Longrightarrow> system_ok c \<Longrightarrow> system_ok d \<and> whole d = whole c"
  by (induction rule: conc_run.induct) (use conc_step_conserves in auto)

lemma conc_run_finished:
  assumes "conc_run step c d" and "system_ok c" and "list_all (\<lambda>l. pending l = 0) (snd d)"
  shows "amount (fst d) = whole c"
proof -
  have "list_all (\<lambda>l. pending l = 0) ts \<Longrightarrow> sum_list (map pending ts) = 0" for ts by (induction ts) simp_all
  then have "sum_list (map pending (snd d)) = 0" using assms(3) .
  then show ?thesis using conc_run_conserves[OF assms(1,2)] by (simp add: whole_def)
qed

end

section \<open>\<open>BudgetLedger::record\<close>\<close>

text \<open>
  The table maps a key to the address of its counters; an \<open>Arc\<close> clone is the address.  A call reads
  the table under the read lock, on a miss enters a fresh cell under the write lock (unless another
  thread was faster), and then makes the three \<open>fetch_add\<close>s.
\<close>

record ledger_heap =
  lh_table :: "string \<rightharpoonup> nat"
  lh_cells :: "key_counters list"

datatype record_thread =
    Lookup string usage
  | Insert string usage
  | AddPrompt string usage nat
  | AddCompletion string usage nat
  | AddTotal string usage nat
  | Recorded

definition on_cell :: "nat \<Rightarrow> (key_counters \<Rightarrow> key_counters) \<Rightarrow> ledger_heap \<Rightarrow> ledger_heap" where
  "on_cell a f h = h\<lparr>lh_cells := (lh_cells h)[a := f (lh_cells h ! a)]\<rparr>"

fun record_step :: "record_thread \<Rightarrow> ledger_heap \<Rightarrow> (ledger_heap \<times> record_thread) option" where
  "record_step (Lookup k u) h =
     Some (h, case lh_table h k of Some a \<Rightarrow> AddPrompt k u a | None \<Rightarrow> Insert k u)"
| "record_step (Insert k u) h =
     (case lh_table h k of
        Some a \<Rightarrow> Some (h, AddPrompt k u a)
      | None \<Rightarrow>
          Some (h\<lparr>lh_table := (lh_table h)(k \<mapsto> length (lh_cells h)), lh_cells := lh_cells h @ [fresh_counters]\<rparr>,
                AddPrompt k u (length (lh_cells h))))"
| "record_step (AddPrompt k u a) h =
     Some (on_cell a (\<lambda>c. c\<lparr>kc_prompt := kc_prompt c + us_prompt u\<rparr>) h, AddCompletion k u a)"
| "record_step (AddCompletion k u a) h =
     Some (on_cell a (\<lambda>c. c\<lparr>kc_completion := kc_completion c + us_completion u\<rparr>) h, AddTotal k u a)"
| "record_step (AddTotal k u a) h =
     Some (on_cell a (\<lambda>c. c\<lparr>kc_total := kc_total c + us_total u\<rparr>) h, Recorded)"
| "record_step Recorded h = None"

text \<open>Distinct keys have distinct cells, and a thread's address is that of its key.\<close>

definition heap_ok :: "ledger_heap \<Rightarrow> bool" where
  "heap_ok h \<longleftrightarrow> (\<forall>k a. lh_table h k = Some a \<longrightarrow> a < length (lh_cells h)) \<and>
     (\<forall>k k' a. lh_table h k = Some a \<longrightarrow> lh_table h k' = Some a \<longrightarrow> k = k')"

fun thread_ok :: "ledger_heap \<Rightarrow> record_thread \<Rightarrow> bool" where
  "thread_ok h (AddPrompt k u a) = (lh_table h k = Some a)"
| "thread_ok h (AddCompletion k u a) = (lh_table h k = Some a)"
| "thread_ok h (AddTotal k u a) = (lh_table h k = Some a)"
| "thread_ok h _ = True"

definition cell_of :: "ledger_heap \<Rightarrow> string \<Rightarrow> key_counters" where
  "cell_of h k = (case lh_table h k of None \<Rightarrow> fresh_counters | Some a \<Rightarrow> lh_cells h ! a)"

fun pending_prompt :: "string \<Rightarrow> record_thread \<Rightarrow> u64" where
  "pending_prompt key (Lookup k u) = (if k = key then us_prompt u else 0)"
| "pending_prompt key (Insert k u) = (if k = key then us_prompt u else 0)"
| "pending_prompt key (AddPrompt k u a) = (if k = key then us_prompt u else 0)"
| "pending_prompt key _ = 0"

fun pending_completion :: "string \<Rightarrow> record_thread \<Rightarrow> u64" where
  "pending_completion key (Lookup k u) = (if k = key then us_completion u else 0)"
| "pending_completion key (Insert k u) = (if k = key then us_completion u else 0)"
| "pending_completion key (AddPrompt k u a) = (if k = key then us_completion u else 0)"
| "pending_completion key (AddCompletion k u a) = (if k = key then us_completion u else 0)"
| "pending_completion key _ = 0"

fun pending_total :: "string \<Rightarrow> record_thread \<Rightarrow> u64" where
  "pending_total key (Lookup k u) = (if k = key then us_total u else 0)"
| "pending_total key (Insert k u) = (if k = key then us_total u else 0)"
| "pending_total key (AddPrompt k u a) = (if k = key then us_total u else 0)"
| "pending_total key (AddCompletion k u a) = (if k = key then us_total u else 0)"
| "pending_total key (AddTotal k u a) = (if k = key then us_total u else 0)"
| "pending_total key Recorded = 0"

lemma heap_ok_insert:
  assumes "heap_ok h" and "lh_table h k = None"
  shows "heap_ok (h\<lparr>lh_table := (lh_table h)(k \<mapsto> length (lh_cells h)), lh_cells := lh_cells h @ [fresh_counters]\<rparr>)"
  using assms by (fastforce simp: heap_ok_def less_Suc_eq)

lemma heap_ok_on_cell [simp]: "heap_ok (on_cell a f h) \<longleftrightarrow> heap_ok h"
  by (simp add: heap_ok_def on_cell_def)

lemma on_cell_table [simp]: "lh_table (on_cell a f h) = lh_table h"
  by (simp add: on_cell_def)

lemma cell_of_on_cell:
  assumes "heap_ok h" and "lh_table h k = Some a"
  shows "cell_of (on_cell a f h) k' = (if k' = k then f (cell_of h k) else cell_of h k')"
  using assms
  by (auto simp: cell_of_def on_cell_def heap_ok_def nth_list_update split: option.split)

lemma cell_of_insert:
  assumes "heap_ok h" and "lh_table h k = None"
  shows "cell_of (h\<lparr>lh_table := (lh_table h)(k \<mapsto> length (lh_cells h)), lh_cells := lh_cells h @ [fresh_counters]\<rparr>) k'
    = cell_of h k'"
  using assms by (auto simp: cell_of_def heap_ok_def nth_append split: option.split)

lemma record_step_ok:
  assumes "record_step l h = Some (h', l')" and "heap_ok h" and "thread_ok h l"
  shows "heap_ok h' \<and> thread_ok h' l' \<and> (thread_ok h m \<longrightarrow> thread_ok h' m)"
  using assms
  by (cases l; cases m) (auto simp: heap_ok_insert split: option.splits)

interpretation prompt_threads: conserving_threads record_step heap_ok thread_ok
  "\<lambda>h. kc_prompt (cell_of h key)" "pending_prompt key" for key
proof unfold_locales
  fix l s s' l'
  assume a: "record_step l s = Some (s', l')" "heap_ok s" "thread_ok s l"
  then show "kc_prompt (cell_of s' key) + pending_prompt key l' = kc_prompt (cell_of s key) + pending_prompt key l"
    by (cases l) (auto simp: cell_of_on_cell cell_of_insert split: option.splits)
qed (use record_step_ok in blast)+


interpretation completion_threads: conserving_threads record_step heap_ok thread_ok
  "\<lambda>h. kc_completion (cell_of h key)" "pending_completion key" for key
proof unfold_locales
  fix l s s' l'
  assume a: "record_step l s = Some (s', l')" "heap_ok s" "thread_ok s l"
  then show "kc_completion (cell_of s' key) + pending_completion key l' =
      kc_completion (cell_of s key) + pending_completion key l"
    by (cases l) (auto simp: cell_of_on_cell cell_of_insert split: option.splits)
qed (use record_step_ok in blast)+

interpretation total_threads: conserving_threads record_step heap_ok thread_ok
  "\<lambda>h. kc_total (cell_of h key)" "pending_total key" for key
proof unfold_locales
  fix l s s' l'
  assume a: "record_step l s = Some (s', l')" "heap_ok s" "thread_ok s l"
  then show "kc_total (cell_of s' key) + pending_total key l' = kc_total (cell_of s key) + pending_total key l"
    by (cases l) (auto simp: cell_of_on_cell cell_of_insert split: option.splits)
qed (use record_step_ok in blast)+

text \<open>The ledger that a heap stands for.\<close>

definition ledger_of :: "ledger \<Rightarrow> ledger_heap \<Rightarrow> ledger" where
  "ledger_of lg h = lg\<lparr>lg_counters := (\<lambda>k. map_option ((!) (lh_cells h)) (lh_table h k))\<rparr>"

lemma used_ledger_of:
  "used_tokens (ledger_of lg h) key =
     (kc_prompt (cell_of h key), kc_completion (cell_of h key), kc_total (cell_of h key))"
  by (simp add: used_tokens_alt ledger_of_def cell_of_def fresh_counters_def split: option.split)

definition calls :: "(string \<times> usage) list \<Rightarrow> record_thread list" where
  "calls us = map (\<lambda>(k, u). Lookup k u) us"

lemma pending_calls:
  "sum_list (map (pending_prompt key) (calls us)) = of_nat (charged us_prompt key us)"
  "sum_list (map (pending_completion key) (calls us)) = of_nat (charged us_completion key us)"
  "sum_list (map (pending_total key) (calls us)) = of_nat (charged us_total key us)"
  by (induction us) (auto simp: calls_def charged_def)

lemma records_exact:
  assumes "conc_run record_step (h, calls us) (h', ts)" and "heap_ok h"
    and "list_all (\<lambda>t. t = Recorded) ts"
  shows "used_tokens (ledger_of lg h') key = used_tokens (budget_records us (ledger_of lg h)) key"
proof -
  have calls_ok: "list_all (thread_ok h) (calls us)" by (induction us) (auto simp: calls_def)
  have quiet: "list_all (\<lambda>t. pending_prompt key t = 0) ts" "list_all (\<lambda>t. pending_completion key t = 0) ts"
    "list_all (\<lambda>t. pending_total key t = 0) ts"
    using assms(3) by (auto simp: list_all_iff)
  have "kc_prompt (cell_of h' key) = kc_prompt (cell_of h key) + of_nat (charged us_prompt key us)"
    using prompt_threads.conc_run_finished[OF assms(1), of key] quiet(1) calls_ok assms(2)
    by (simp add: prompt_threads.system_ok_def prompt_threads.whole_def pending_calls)
  moreover have "kc_completion (cell_of h' key) = kc_completion (cell_of h key) + of_nat (charged us_completion key us)"
    using completion_threads.conc_run_finished[OF assms(1), of key] quiet(2) calls_ok assms(2)
    by (simp add: completion_threads.system_ok_def completion_threads.whole_def pending_calls)
  moreover have "kc_total (cell_of h' key) = kc_total (cell_of h key) + of_nat (charged us_total key us)"
    using total_threads.conc_run_finished[OF assms(1), of key] quiet(3) calls_ok assms(2)
    by (simp add: total_threads.system_ok_def total_threads.whole_def pending_calls)
  ultimately show ?thesis by (simp add: used_after_records used_ledger_of)
qed

text \<open>C6: concurrent \<open>record\<close>s lose nothing: when every call of a set of overlapping calls has
  returned, in whatever order their table accesses and atomic additions interleaved (first uses of the
  same key racing included), the ledger shows for every key what the same calls give one after
  another.\<close>
theorem concurrent_records_exact:
  assumes "conc_run record_step (h, calls us) (h', ts)" and "heap_ok h"
    and "list_all (\<lambda>t. t = Recorded) ts"
  shows "used_tokens (ledger_of lg h') key = used_tokens (budget_records us (ledger_of lg h)) key"
  by (rule records_exact[OF assms])

text \<open>No call blocks another for ever: from every state of the system, letting threads run finishes all of
  them; each call has at most five steps.\<close>

fun steps_left :: "record_thread \<Rightarrow> nat" where
  "steps_left (Lookup k u) = 5"
| "steps_left (Insert k u) = 4"
| "steps_left (AddPrompt k u a) = 3"
| "steps_left (AddCompletion k u a) = 2"
| "steps_left (AddTotal k u a) = 1"
| "steps_left Recorded = 0"

lemma record_step_progress:
  "record_step l h = None \<longleftrightarrow> l = Recorded"
  "record_step l h = Some (h', l') \<Longrightarrow> steps_left l' < steps_left l"
proof -
  show "record_step l h = None \<longleftrightarrow> l = Recorded" by (cases l) (simp_all split: option.split)
  show "steps_left l' < steps_left l" if "record_step l h = Some (h', l')"
    using that by (cases l) (auto split: option.splits)
qed

lemma conc_step_at:
  "i < length ts \<Longrightarrow> step (ts ! i) s = Some (s', l') \<Longrightarrow> ts' = ts[i := l'] \<Longrightarrow>
     conc_step step (s, ts) (s', ts')"
  by (simp add: conc_step.intros)

lemma conc_run_converse: "conc_run step d e \<Longrightarrow> conc_step step c d \<Longrightarrow> conc_run step c e"
  by (induction rule: conc_run.induct) (auto intro: conc_run.intros)

lemma conc_run_steps: "(conc_step step)\<^sup>*\<^sup>* c d \<Longrightarrow> conc_run step c d"
  by (induction rule: converse_rtranclp_induct) (auto intro: conc_run.intros conc_run_converse)

interpretation record_calls: progressing "conc_step record_step" "\<lambda>(h, ts). list_all (\<lambda>t. t = Recorded) ts"
  "\<lambda>(h, ts). sum_list (map steps_left ts)"
proof unfold_locales
  fix c d :: "ledger_heap \<times> record_thread list"
  show "(case d of (h, ts) \<Rightarrow> sum_list (map steps_left ts)) < (case c of (h, ts) \<Rightarrow> sum_list (map steps_left ts))"
    if "conc_step record_step c d"
    using that by cases (auto dest!: record_step_progress(2) intro: weight_update)
  show "\<exists>d. conc_step record_step c d" if "\<not> (case c of (h, ts) \<Rightarrow> list_all (\<lambda>t. t = Recorded) ts)"
  proof -
    obtain h ts where c: "c = (h, ts)" by (cases c)
    with that obtain i where i: "i < length ts" "ts ! i \<noteq> Recorded" by (auto simp: list_all_length)
    then obtain h' l' where "record_step (ts ! i) h = Some (h', l')"
      using record_step_progress(1)[of "ts ! i" h] by (cases "record_step (ts ! i) h") auto
    with i(1) show ?thesis unfolding c by (blast intro: conc_step.intros)
  qed
qed

lemma records_finish:
  "\<exists>h' ts'. conc_run record_step (h, ts) (h', ts') \<and> list_all (\<lambda>t. t = Recorded) ts'"
  using record_calls.reaches_finished[of "(h, ts)"] by (fastforce dest: conc_run_steps)

lemma concurrent_records_exact_witness:
  "\<exists>h' ts. conc_run record_step (\<lparr>lh_table = Map.empty, lh_cells = []\<rparr>,
       calls [(''a'', \<lparr>us_prompt = 1, us_completion = 2, us_total = 3\<rparr>), (''a'', \<lparr>us_prompt = 10, us_completion = 20, us_total = 30\<rparr>)])
     (h', ts) \<and> used_tokens (ledger_of sample_ledger h') ''a'' = (11, 22, 33)"
proof -
  let ?h = "\<lparr>lh_table = Map.empty, lh_cells = []\<rparr>"
  let ?us = "[(''a'', \<lparr>us_prompt = 1, us_completion = 2, us_total = 3\<rparr>), (''a'', \<lparr>us_prompt = 10, us_completion = 20, us_total = 30\<rparr>)]"
  obtain h' ts where run: "conc_run record_step (?h, calls ?us) (h', ts)" "list_all (\<lambda>t. t = Recorded) ts"
    using records_finish by blast
  have ok: "heap_ok ?h" by (simp add: heap_ok_def)
  from concurrent_records_exact[OF run(1) ok run(2), of sample_ledger "''a''"]
  have "used_tokens (ledger_of sample_ledger h') ''a'' = (11, 22, 33)"
    by (simp add: used_after_records used_ledger_of cell_of_def fresh_counters_def charged_def)
  with run(1) show ?thesis by blast
qed

section \<open>\<open>TpmCounter::add\<close>\<close>

text \<open>
  The instructions of \<open>add\<close>: load the window start and decide; then either the two stores of a
  reset, or the \<open>fetch_add\<close>.
\<close>

datatype add_thread =
    AddLoad u64 u64
  | StoreWindow u64 u64
  | StoreTokens u64
  | FetchAdd u64
  | AddReturned u64

fun add_step :: "add_thread \<Rightarrow> tpm_counter \<Rightarrow> (tpm_counter \<times> add_thread) option" where
  "add_step (AddLoad tokens now) c =
     Some (c, if saturating_sub now (tc_window_start c) \<ge> 60 then StoreWindow tokens now else FetchAdd tokens)"
| "add_step (StoreWindow tokens now) c = Some (c\<lparr>tc_window_start := now\<rparr>, StoreTokens tokens)"
| "add_step (StoreTokens tokens) c = Some (c\<lparr>tc_tokens := tokens\<rparr>, AddReturned tokens)"
| "add_step (FetchAdd tokens) c =
     Some (c\<lparr>tc_tokens := tc_tokens c + tokens\<rparr>, AddReturned (tc_tokens c + tokens))"
| "add_step (AddReturned n) c = None"

text \<open>A call that is not interrupted is \<open>tpm_add\<close>.\<close>

fun run_alone :: "('l \<Rightarrow> 's \<Rightarrow> ('s \<times> 'l) option) \<Rightarrow> nat \<Rightarrow> 's \<times> 'l \<Rightarrow> 's \<times> 'l" where
  "run_alone step 0 c = c"
| "run_alone step (Suc n) (s, l) = (case step l s of None \<Rightarrow> (s, l) | Some c \<Rightarrow> run_alone step n c)"

lemma add_alone:
  "run_alone add_step 3 (c, AddLoad tokens now) =
     (case tpm_add tokens now c of (n, c') \<Rightarrow> (c', AddReturned n))"
  by (simp add: tpm_add_def Let_def eval_nat_numeral)

text \<open>While the window is live no call resets it, and the additions commute.\<close>

definition live_thread :: "u64 \<Rightarrow> tpm_counter \<Rightarrow> add_thread \<Rightarrow> bool" where
  "live_thread ws c t = (case t of
     AddLoad tokens now \<Rightarrow> \<not> saturating_sub now ws \<ge> 60
   | FetchAdd tokens \<Rightarrow> True
   | AddReturned n \<Rightarrow> True
   | _ \<Rightarrow> False)"

fun pending_tokens :: "add_thread \<Rightarrow> u64" where
  "pending_tokens (AddLoad tokens now) = tokens"
| "pending_tokens (FetchAdd tokens) = tokens"
| "pending_tokens _ = 0"

interpretation window_threads: conserving_threads add_step "\<lambda>c. tc_window_start c = ws" "live_thread ws"
  tc_tokens pending_tokens for ws
proof unfold_locales
  fix l s s' l' m
  assume a: "add_step l s = Some (s', l')" "tc_window_start s = ws" "live_thread ws s l"
  show "tc_window_start s' = ws \<and> live_thread ws s' l'"
    using a by (cases l) (auto simp: live_thread_def)
  show "tc_tokens s' + pending_tokens l' = tc_tokens s + pending_tokens l"
    using a by (cases l) (auto simp: live_thread_def)
  show "live_thread ws s' m" if "live_thread ws s m"
    using that by (simp add: live_thread_def)
qed

definition add_calls :: "(u64 \<times> u64) list \<Rightarrow> add_thread list" where
  "add_calls ns = map (\<lambda>(now, n). AddLoad n now) ns"

text \<open>C40: Inside a live window concurrent \<open>add\<close>s lose nothing: when all calls have returned, the counter
  holds its old tokens plus those of all calls, however their instructions interleaved.\<close>
theorem live_window_adds_exact:
  assumes "conc_run add_step (c, add_calls ns) (c', ts)"
    and "list_all (\<lambda>(now, n). \<not> saturating_sub now (tc_window_start c) \<ge> 60) ns"
    and "list_all (\<lambda>t. pending_tokens t = 0) ts"
  shows "tc_tokens c' = tc_tokens c + (\<Sum>(now, n) \<leftarrow> ns. n) \<and> tc_window_start c' = tc_window_start c"
proof -
  let ?ws = "tc_window_start c"
  have ok: "window_threads.system_ok ?ws (c, add_calls ns)"
    using assms(2) by (auto simp: window_threads.system_ok_def add_calls_def live_thread_def list_all_iff)
  have "sum_list (map pending_tokens (add_calls ns)) = (\<Sum>(now, n) \<leftarrow> ns. n)"
    by (induction ns) (auto simp: add_calls_def)
  then show ?thesis
    using window_threads.conc_run_finished[OF assms(1) ok] window_threads.conc_run_conserves[OF assms(1) ok] assms(3)
    by (simp add: window_threads.whole_def window_threads.system_ok_def)
qed

text \<open>C28: at the end of a window the two stores of a reset are not atomic: two overlapping calls can both
  reset, and the tokens of the one that stores first are lost.\<close>
theorem window_reset_race:
  assumes "60 \<le> saturating_sub now (tc_window_start c)"
  shows "conc_run add_step (c, [AddLoad m now, AddLoad n now])
    (c\<lparr>tc_window_start := now, tc_tokens := n\<rparr>, [AddReturned m, AddReturned n])"
proof -
  let ?c1 = "c\<lparr>tc_window_start := now\<rparr>"
  let ?c2 = "?c1\<lparr>tc_tokens := m\<rparr>"
  have "conc_step add_step (c, [AddLoad m now, AddLoad n now]) (c, [StoreWindow m now, AddLoad n now])"
    by (rule conc_step_at[of 0]) (simp_all add: assms)
  moreover have "conc_step add_step (c, [StoreWindow m now, AddLoad n now]) (c, [StoreWindow m now, StoreWindow n now])"
    by (rule conc_step_at[of 1]) (simp_all add: assms)
  moreover have "conc_step add_step (c, [StoreWindow m now, StoreWindow n now]) (?c1, [StoreTokens m, StoreWindow n now])"
    by (rule conc_step_at[of 0]) simp_all
  moreover have "conc_step add_step (?c1, [StoreTokens m, StoreWindow n now]) (?c2, [AddReturned m, StoreWindow n now])"
    by (rule conc_step_at[of 0]) simp_all
  moreover have "conc_step add_step (?c2, [AddReturned m, StoreWindow n now]) (?c2, [AddReturned m, StoreTokens n])"
    by (rule conc_step_at[of 1]) simp_all
  moreover have "conc_step add_step (?c2, [AddReturned m, StoreTokens n])
      (c\<lparr>tc_window_start := now, tc_tokens := n\<rparr>, [AddReturned m, AddReturned n])"
    by (rule conc_step_at[of 1]) simp_all
  ultimately show ?thesis by (meson conc_run.intros)
qed

lemma window_reset_race_witness:
  "conc_run add_step (fresh_tpm, [AddLoad 5 100, AddLoad 7 100])
    (fresh_tpm\<lparr>tc_window_start := 100, tc_tokens := 7\<rparr>, [AddReturned 5, AddReturned 7])"
  by (rule window_reset_race) (simp add: fresh_tpm_def saturating_sub_def word_less_nat_alt word_le_nat_alt)

lemma live_window_adds_exact_witness:
  "tc_tokens (\<lparr>tc_window_start = 100, tc_tokens = 7\<rparr>) = 0 + (\<Sum>(now, n) \<leftarrow> [(130 :: u64, 7 :: u64)]. n)"
proof -
  let ?c = "\<lparr>tc_window_start = 100, tc_tokens = 0\<rparr>" and ?d = "\<lparr>tc_window_start = 100, tc_tokens = 7\<rparr>"
  have small: "\<not> saturating_sub 130 100 \<ge> 60"
    by (simp add: saturating_sub_def word_less_nat_alt word_le_nat_alt)
  have "conc_step add_step (?c, add_calls [(130, 7)]) (?c, [FetchAdd 7])"
    by (rule conc_step_at[of 0]) (use small in \<open>simp_all add: add_calls_def\<close>)
  moreover have "conc_step add_step (?c, [FetchAdd 7]) (?d, [AddReturned 7])"
    by (rule conc_step_at[of 0]) simp_all
  ultimately have run: "conc_run add_step (?c, add_calls [(130, 7)]) (?d, [AddReturned 7])"
    by (meson conc_run.intros)
  from live_window_adds_exact[OF run] small show ?thesis by simp
qed

end
