(* ===== verification/Locked_Ledger.thy ===== *)
theory Locked_Ledger
  imports Concurrency
begin

text \<open>
  \<open>BudgetLedger::record\<close> of \<open>src/budget.rs\<close> with its lock: a call takes the read lock, looks the key up and
  releases the lock again; on a miss it takes the write lock, enters the key unless it is there by
  now, and releases it; then it makes its additions without a lock.  Taking a lock is a step that exists only
  while the lock can be had; which of several waiting threads gets it is left open.
\<close>

section \<open>The lock and the calls\<close>

record locked_ledger =
  lk_heap :: ledger_heap
  lk_readers :: nat
  lk_writer :: bool

datatype locked_thread =
    WantRead string usage
  | Looking string usage
  | LeaveRead string usage "nat option"
  | WantWrite string usage
  | Inserting string usage
  | LeaveWrite string usage nat
  | Adding record_thread

fun locked_step :: "locked_thread \<Rightarrow> locked_ledger \<Rightarrow> (locked_ledger \<times> locked_thread) option" where
  "locked_step (WantRead k u) s =
     (if lk_writer s then None else Some (s\<lparr>lk_readers := lk_readers s + 1\<rparr>, Looking k u))"
| "locked_step (Looking k u) s = Some (s, LeaveRead k u (lh_table (lk_heap s) k))"
| "locked_step (LeaveRead k u found) s =
     Some (s\<lparr>lk_readers := lk_readers s - 1\<rparr>,
           case found of Some a \<Rightarrow> Adding (AddPrompt k u a) | None \<Rightarrow> WantWrite k u)"
| "locked_step (WantWrite k u) s =
     (if lk_writer s \<or> lk_readers s > 0 then None else Some (s\<lparr>lk_writer := True\<rparr>, Inserting k u))"
| "locked_step (Inserting k u) s =
     (case lh_table (lk_heap s) k of
        Some a \<Rightarrow> Some (s, LeaveWrite k u a)
      | None \<Rightarrow>
          (let h = lk_heap s
           in Some (s\<lparr>lk_heap := h\<lparr>lh_table := (lh_table h)(k \<mapsto> length (lh_cells h)),
                                  lh_cells := lh_cells h @ [fresh_counters]\<rparr>\<rparr>,
                    LeaveWrite k u (length (lh_cells h)))))"
| "locked_step (LeaveWrite k u a) s = Some (s\<lparr>lk_writer := False\<rparr>, Adding (AddPrompt k u a))"
| "locked_step (Adding t) s =
     (case record_step t (lk_heap s) of None \<Rightarrow> None | Some (h, t') \<Rightarrow> Some (s\<lparr>lk_heap := h\<rparr>, Adding t'))"

definition unlocked :: "ledger_heap \<Rightarrow> locked_ledger" where
  "unlocked h = \<lparr>lk_heap = h, lk_readers = 0, lk_writer = False\<rparr>"

definition locked_calls :: "(string \<times> usage) list \<Rightarrow> locked_thread list" where
  "locked_calls us = map (\<lambda>(k, u). WantRead k u) us"

fun returned :: "locked_thread \<Rightarrow> bool" where
  "returned (Adding t) = (t = Recorded)"
| "returned _ = False"

section \<open>Mutual exclusion\<close>

text \<open>The threads that hold a guard.\<close>

fun reading :: "locked_thread \<Rightarrow> bool" where
  "reading (Looking k u) = True"
| "reading (LeaveRead k u found) = True"
| "reading _ = False"

fun writing :: "locked_thread \<Rightarrow> bool" where
  "writing (Inserting k u) = True"
| "writing (LeaveWrite k u a) = True"
| "writing _ = False"

definition lock_ok :: "locked_ledger \<times> locked_thread list \<Rightarrow> bool" where
  "lock_ok c \<longleftrightarrow> (case c of (s, ts) \<Rightarrow>
     lk_readers s = length (filter reading ts) \<and>
     length (filter writing ts) = (if lk_writer s then 1 else 0) \<and>
     (lk_writer s \<longrightarrow> lk_readers s = 0))"

lemma filter_update:
  assumes "i < length ts"
  shows "length (filter P (ts[i := t])) + (if P (ts ! i) then 1 else 0) = length (filter P ts) + (if P t then 1 else 0)"
proof -
  have "filter P ts = filter P (take i ts) @ filter P [ts ! i] @ filter P (drop (Suc i) ts)"
    using id_take_nth_drop[OF assms] by (metis append_Cons append_Nil filter_append)
  then show ?thesis using assms by (simp add: upd_conv_take_nth_drop)
qed

lemma holder_counts:
  assumes "i < length ts" and "P (ts ! i)"
  shows "0 < length (filter P ts)"
  using assms by (metis filter_empty_conv length_greater_0_conv nth_mem)

lemma locked_step_lock:
  assumes "conc_step locked_step c d" and "lock_ok c"
  shows "lock_ok d"
  using assms
proof (induction rule: conc_step.induct)
  case (1 i ts s s' l')
  note r = filter_update[OF 1(1), of reading l'] and w = filter_update[OF 1(1), of writing l']
  note hr = holder_counts[OF 1(1), of reading]
  show ?case using 1(2,3) r w hr
    by (cases "ts ! i") (auto simp: lock_ok_def Let_def split: if_splits option.splits)
qed

lemma lock_ok_start: "lock_ok (unlocked h, locked_calls us)"
proof -
  have "filter reading (locked_calls us) = []" "filter writing (locked_calls us) = []"
    by (auto simp: locked_calls_def filter_empty_conv)
  then show ?thesis by (simp add: lock_ok_def unlocked_def)
qed

section \<open>No deadlock\<close>

text \<open>
  A thread that waits for the lock can have it as soon as no thread holds a guard; and one that holds a
  guard, or adds, can always go on.
\<close>

lemma some_thread_moves:
  assumes "lock_ok (s, ts)" and "\<not> list_all returned ts"
  shows "\<exists>d. conc_step locked_step (s, ts) d"
proof (cases "\<exists>i < length ts. locked_step (ts ! i) s \<noteq> None")
  case True
  then obtain i s' l' where "i < length ts" "locked_step (ts ! i) s = Some (s', l')" by fastforce
  then show ?thesis by (blast intro: conc_step.intros)
next
  case False
  then have stuck: "locked_step t s = None" if "t \<in> set ts" for t using that by (metis in_set_conv_nth)
  have "\<not> reading t" "\<not> writing t" if "t \<in> set ts" for t
    using stuck[OF that] by (cases t; auto simp: Let_def split: option.splits)+
  then have free: "lk_readers s = 0" "\<not> lk_writer s"
    using assms(1) by (auto simp: lock_ok_def filter_empty_conv)
  obtain t where t: "t \<in> set ts" "\<not> returned t" using assms(2) by (auto simp: list_all_iff)
  have "locked_step t s \<noteq> None"
    using t(2) free record_step_progress(1)[of _ "lk_heap s"]
    by (cases t) (auto simp: Let_def split: option.splits)
  with stuck[OF t(1)] show ?thesis by simp
qed

fun locked_steps_left :: "locked_thread \<Rightarrow> nat" where
  "locked_steps_left (WantRead k u) = 9"
| "locked_steps_left (Looking k u) = 8"
| "locked_steps_left (LeaveRead k u found) = 7"
| "locked_steps_left (WantWrite k u) = 6"
| "locked_steps_left (Inserting k u) = 5"
| "locked_steps_left (LeaveWrite k u a) = 4"
| "locked_steps_left (Adding t) = steps_left t"

lemma locked_step_progress: "locked_step t s = Some (s', t') \<Longrightarrow> locked_steps_left t' < locked_steps_left t"
  by (cases t) (auto simp: Let_def dest: record_step_progress(2) split: if_splits option.splits)

interpretation locked: progressing "conc_step locked_step" "\<lambda>c. lock_ok c \<longrightarrow> list_all returned (snd c)"
  "\<lambda>c. sum_list (map locked_steps_left (snd c))"
proof unfold_locales
  fix c d :: "locked_ledger \<times> locked_thread list"
  show "sum_list (map locked_steps_left (snd d)) < sum_list (map locked_steps_left (snd c))"
    if "conc_step locked_step c d"
    using that by cases (auto dest!: locked_step_progress intro: weight_update)
  show "\<exists>d. conc_step locked_step c d" if "\<not> (lock_ok c \<longrightarrow> list_all returned (snd c))"
    using that some_thread_moves[of "fst c" "snd c"] by simp
qed

section \<open>Refinement\<close>

text \<open>
  Every step is one of the calls of theory \<open>Concurrency\<close>, which have no lock, or none at all.
\<close>

fun unlocked_thread :: "locked_thread \<Rightarrow> record_thread" where
  "unlocked_thread (WantRead k u) = Lookup k u"
| "unlocked_thread (Looking k u) = Lookup k u"
| "unlocked_thread (LeaveRead k u found) = (case found of Some a \<Rightarrow> AddPrompt k u a | None \<Rightarrow> Insert k u)"
| "unlocked_thread (WantWrite k u) = Insert k u"
| "unlocked_thread (Inserting k u) = Insert k u"
| "unlocked_thread (LeaveWrite k u a) = AddPrompt k u a"
| "unlocked_thread (Adding t) = t"

lemma locked_step_refines:
  assumes "locked_step t s = Some (s', t')"
  shows "lk_heap s' = lk_heap s \<and> unlocked_thread t' = unlocked_thread t
    \<or> record_step (unlocked_thread t) (lk_heap s) = Some (lk_heap s', unlocked_thread t')"
  using assms by (cases t) (auto simp: Let_def split: if_splits option.splits)

lemma locked_run_refines:
  "(conc_step locked_step ^^ n) (s0, ts0) (s, ts) \<Longrightarrow>
     conc_run record_step (lk_heap s0, map unlocked_thread ts0) (lk_heap s, map unlocked_thread ts)"
proof (induction n arbitrary: s ts)
  case 0
  then show ?case by (simp add: conc_refl)
next
  case (Suc n)
  then obtain s1 ts1 where one: "(conc_step locked_step ^^ n) (s0, ts0) (s1, ts1)" "conc_step locked_step (s1, ts1) (s, ts)"
    by auto
  note run = Suc.IH[OF one(1)]
  from one(2) obtain i l' where i: "i < length ts1" "locked_step (ts1 ! i) s1 = Some (s, l')" "ts = ts1[i := l']"
    by cases auto
  from locked_step_refines[OF i(2)] show ?case
  proof
    assume same: "lk_heap s = lk_heap s1 \<and> unlocked_thread l' = unlocked_thread (ts1 ! i)"
    have "map unlocked_thread ts = map unlocked_thread ts1"
      using same i(1,3) by (simp add: map_update list_update_same_conv)
    with run same show ?thesis by simp
  next
    assume "record_step (unlocked_thread (ts1 ! i)) (lk_heap s1) = Some (lk_heap s, unlocked_thread l')"
    then have "conc_step record_step (lk_heap s1, map unlocked_thread ts1) (lk_heap s, map unlocked_thread ts)"
      using i(1,3) by (intro conc_step_at[of i]) (simp_all add: map_update)
    with run show ?thesis by (rule conc_more)
  qed
qed

lemma locked_start:
  "map unlocked_thread (locked_calls us) = calls us" "sum_list (map locked_steps_left (locked_calls us)) = 9 * length us"
  by (induction us) (auto simp: locked_calls_def calls_def)

lemma locked_run_lock: "(conc_step locked_step ^^ n) c d \<Longrightarrow> lock_ok c \<Longrightarrow> lock_ok d"
proof (induction n arbitrary: d)
  case (Suc n)
  then obtain e where "(conc_step locked_step ^^ n) c e" "conc_step locked_step e d" by (metis relpowp_Suc_E)
  with Suc show ?case using locked_step_lock by blast
qed simp

text \<open>C25: the ledger's lock is used correctly. Let any number of \<open>record\<close> calls overlap in any way. Then a thread
  inside the write section is alone, without readers and without another writer; the calls never
  deadlock: as long as one has not returned, some thread can move; they make at most nine steps each
  under every schedule; and when all have returned, the ledger shows for every key what the same calls
  give one after another.\<close>
theorem locked_records_complete:
  assumes "(conc_step locked_step ^^ n) (unlocked h, locked_calls us) (s, ts)" and "heap_ok h"
  shows "length (filter writing ts) \<le> 1 \<and> (filter writing ts \<noteq> [] \<longrightarrow> filter reading ts = [])
    \<and> (\<not> list_all returned ts \<longrightarrow> (\<exists>d. conc_step locked_step (s, ts) d))
    \<and> n \<le> 9 * length us
    \<and> (list_all returned ts \<longrightarrow>
        used_tokens (ledger_of lg (lk_heap s)) key = used_tokens (budget_records us (ledger_of lg h)) key)"
proof -
  have ok: "lock_ok (s, ts)" by (rule locked_run_lock[OF assms(1) lock_ok_start])
  have "conc_run record_step (h, calls us) (lk_heap s, map unlocked_thread ts)"
    using locked_run_refines[OF assms(1)] by (simp add: unlocked_def locked_start(1))
  moreover have "list_all (\<lambda>t. t = Recorded) (map unlocked_thread ts)" if "list_all returned ts"
    using that by (auto simp: list_all_iff elim!: returned.elims(2))
  ultimately have "list_all returned ts \<longrightarrow>
      used_tokens (ledger_of lg (lk_heap s)) key = used_tokens (budget_records us (ledger_of lg h)) key"
    using records_exact assms(2) by blast
  moreover have "n \<le> 9 * length us" using locked.steps_bounded[OF assms(1)] by (simp add: locked_start(2))
  moreover have "length (filter writing ts) \<le> 1 \<and> (filter writing ts \<noteq> [] \<longrightarrow> filter reading ts = [])"
    using ok by (auto simp: lock_ok_def split: if_splits)
  ultimately show ?thesis using some_thread_moves[OF ok] by blast
qed

lemma locked_records_complete_witness:
  "\<exists>n s ts. (conc_step locked_step ^^ n) (unlocked \<lparr>lh_table = Map.empty, lh_cells = []\<rparr>,
       locked_calls [(''a'', \<lparr>us_prompt = 1, us_completion = 2, us_total = 3\<rparr>), (''a'', \<lparr>us_prompt = 10, us_completion = 20, us_total = 30\<rparr>)])
     (s, ts) \<and> list_all returned ts \<and> n \<le> 18 \<and> used_tokens (ledger_of sample_ledger (lk_heap s)) ''a'' = (11, 22, 33)"
proof -
  let ?h = "\<lparr>lh_table = Map.empty, lh_cells = []\<rparr>"
  let ?us = "[(''a'', \<lparr>us_prompt = 1, us_completion = 2, us_total = 3\<rparr>), (''a'', \<lparr>us_prompt = 10, us_completion = 20, us_total = 30\<rparr>)]"
  obtain d where d: "(conc_step locked_step)\<^sup>*\<^sup>* (unlocked ?h, locked_calls ?us) d" "lock_ok d \<longrightarrow> list_all returned (snd d)"
    using locked.reaches_finished by blast
  obtain s ts where st: "d = (s, ts)" by (cases d)
  obtain n where n: "(conc_step locked_step ^^ n) (unlocked ?h, locked_calls ?us) (s, ts)"
    using d(1) unfolding st by (metis rtranclp_imp_relpowp)
  have "list_all returned ts" using d(2) locked_run_lock[OF n lock_ok_start] by (simp add: st)
  moreover have "heap_ok ?h" by (simp add: heap_ok_def)
  note locked_records_complete[OF n this, of sample_ledger "''a''"]
  ultimately have "n \<le> 18 \<and> used_tokens (ledger_of sample_ledger (lk_heap s)) ''a'' = (11, 22, 33)"
    by (simp add: used_after_records used_ledger_of cell_of_def fresh_counters_def charged_def)
  with n \<open>list_all returned ts\<close> show ?thesis by blast
qed

end
