(* ===== verification/Router_Tests.thy ===== *)
theory Router_Tests
  imports Typed_Routing
begin

text \<open>
  The test module of \<open>src/router.rs\<close> over the model.  Every unit test is a definition that evaluates its
  assertions (a panic is failure), and the model passes it.  The three property tests of the module draw
  random backend tables, queries, latency histories and policies, a malicious one included; their
  assertions are proved for all of them.
\<close>

section \<open>Fixtures\<close>

text \<open>\<open>Duration::from_millis\<close>.\<close>

definition from_millis :: "u64 \<Rightarrow> duration" where
  "from_millis ms = \<lparr>du_secs = ms div 1000, du_nanos = ucast (ms mod 1000) * 1000000\<rparr>"

lemma from_millis_sample:
  assumes ms: "m < 1000" "0 < m"
    and a: "2 powi a \<le> of_nat m / (1000 :: rat)" "of_nat m / (1000 :: rat) < 2 powi (a + 1)" "- 1022 \<le> a"
      "\<bar>of_nat m / 1000 / 2 powi (a - 52) - of_int n\<bar> < (1 / 2 :: rat)"
    and b: "2 powi b \<le> (of_int n * 2 powi (a - 52) * 1000 :: rat)"
      "(of_int n * 2 powi (a - 52) * 1000 :: rat) < 2 powi (b + 1)" "- 1022 \<le> b"
      "\<bar>of_int n * 2 powi (a - 52) * 1000 / 2 powi (b - 52) - of_int k\<bar> < (1 / 2 :: rat)"
  shows "latency_sample (from_millis (of_nat m)) = Fin (of_int k * 2 powi (b - 52))"
proof -
  have u: "unat (of_nat m :: u64) = m" using ms by (simp add: unat_of_nat)
  have s: "unat (du_secs (from_millis (of_nat m))) = 0"
    using ms by (simp add: from_millis_def unat_div u)
  have "unat (ucast ((of_nat m :: u64) mod 1000) :: u32) = m"
    using ms by (simp add: unsigned_ucast_eq unat_mod u take_bit_nat_eq_self)
  then have ns: "unat (du_nanos (from_millis (of_nat m))) = m * 1000000"
    using ms by (simp add: from_millis_def unat_word_ariths)
  have x: "0 \<le> of_nat m / (1000 :: rat)" "of_nat m / (1000 :: rat) \<le> 1" using ms by simp_all
  have r: "round_rat (of_nat m / 1000) = of_int n * 2 powi (a - 52)" by (rule round_rat_near[OF a])
  have r0: "0 \<le> (of_int n * 2 powi (a - 52) :: rat)" using round_rat_nonneg[OF x(1)] by (simp add: r)
  have r1: "(of_int n * 2 powi (a - 52) :: rat) \<le> 1"
    using round_rat_mono[of "of_nat m / 1000" 1] x round_rat_exact[of 1 0] by (simp add: r)
  have "as_secs_f64 (from_millis (of_nat m)) = Fin (of_int n * 2 powi (a - 52))"
  proof -
    have e: "of_nat (m * 1000000) / (1000000000 :: rat) = of_nat m / 1000" by simp
    have "f64_add (fl 0) (fl (of_nat m / 1000)) = fl (of_int n * 2 powi (a - 52))"
      using x fl_of_nat[of 0] by (simp add: fl_small r)
    moreover have "fl (of_int n * 2 powi (a - 52)) = Fin (round_rat (round_rat (of_nat m / 1000)))"
      using r0 r1 unfolding r by (intro fl_small) auto
    ultimately show ?thesis
      using round_rat_idem[OF x(1)] unfolding as_secs_f64_def s ns e r by simp
  qed
  then show ?thesis
    using r0 r1 by (simp add: latency_sample_def fl_small round_rat_near[OF b])
qed

lemma millis_samples:
  "latency_sample (from_millis 800) = Fin 800"
  "latency_sample (from_millis 20) = Fin 20"
  "latency_sample (from_millis 5) = Fin 5"
  "latency_sample (from_millis 10) = Fin 10"
  "latency_sample (from_millis 1) = Fin 1"
  "latency_sample (from_millis 900) = Fin 900"
  "latency_sample (from_millis 100) = Fin 100"
  "latency_sample (from_millis 200) = Fin 200"
  "latency_sample (from_millis 50) = Fin 50"
  using from_millis_sample[of 800 "-1" 7205759403792794 9 7036874417766400]
    from_millis_sample[of 20 "-6" 5764607523034235 4 5629499534213120]
    from_millis_sample[of 5 "-8" 5764607523034235 2 5629499534213120]
    from_millis_sample[of 10 "-7" 5764607523034235 3 5629499534213120]
    from_millis_sample[of 1 "-10" 4611686018427388 0 4503599627370496]
    from_millis_sample[of 900 "-1" 8106479329266893 9 7916483719987200]
    from_millis_sample[of 100 "-4" 7205759403792794 6 7036874417766400]
    from_millis_sample[of 200 "-3" 7205759403792794 7 7036874417766400]
    from_millis_sample[of 50 "-5" 7205759403792794 5 7036874417766400]
  by (simp_all add: power_int_minus field_simps)

definition test_backend :: "string \<Rightarrow> privacy \<Rightarrow> string list \<Rightarrow> string list \<Rightarrow> backend" where
  "test_backend name privacy models tags =
     \<lparr>be_name = name, be_base_url = ''http://'' @ name @ ''.test'', be_api_key = Some (Secret (''key-'' @ name)),
      be_models = models, be_capability_tags = tags, be_privacy = privacy\<rparr>"

definition test_query :: "string \<Rightarrow> string list \<Rightarrow> route_query" where
  "test_query model tags = with_tags (new_query model) tags"

text \<open>The name of the backend a query is routed to.\<close>

definition routed_name :: "router \<Rightarrow> route_query \<Rightarrow> bool \<Rightarrow> string option" where
  "routed_name r q mark_private =
     (case route r q mark_private of Inr b \<Rightarrow> Some (be_name b) | Inl e \<Rightarrow> None)"

section \<open>The routing table of static priority\<close>

record routing_case =
  rc_backends :: "backend list"
  rc_model :: string
  rc_tags :: "string list"
  rc_private :: bool
  rc_expect :: "unit + string"

definition routing_cases :: "routing_case list" where
  "routing_cases =
    [\<lparr>rc_backends = [test_backend ''ext-a'' External [''m1''] [], test_backend ''loc-b'' Local [''m1''] []],
      rc_model = ''m1'', rc_tags = [], rc_private = False, rc_expect = Inr ''ext-a''\<rparr>,
     \<lparr>rc_backends = [test_backend ''ext-a'' External [''m1''] [], test_backend ''loc-b'' Local [''m1''] []],
      rc_model = ''m1'', rc_tags = [], rc_private = True, rc_expect = Inr ''loc-b''\<rparr>,
     \<lparr>rc_backends = [test_backend ''ext-a'' External [''m1''] [], test_backend ''ext-b'' External [''m1''] [],
        test_backend ''loc-c'' Local [''other-model''] []],
      rc_model = ''m1'', rc_tags = [], rc_private = True, rc_expect = Inl ()\<rparr>,
     \<lparr>rc_backends = [test_backend ''loc-a'' Local [''m2''] [], test_backend ''loc-b'' Local [''m1''] []],
      rc_model = ''m1'', rc_tags = [], rc_private = False, rc_expect = Inr ''loc-b''\<rparr>,
     \<lparr>rc_backends = [test_backend ''loc-a'' Local [''m1''] [''code''],
        test_backend ''loc-b'' Local [''m1''] [''code'', ''fast'']],
      rc_model = ''m1'', rc_tags = [''code'', ''fast''], rc_private = False, rc_expect = Inr ''loc-b''\<rparr>,
     \<lparr>rc_backends = [test_backend ''loc-a'' Local [''m1''] []],
      rc_model = ''nope'', rc_tags = [], rc_private = False, rc_expect = Inl ()\<rparr>,
     \<lparr>rc_backends = [],
      rc_model = ''m1'', rc_tags = [], rc_private = False, rc_expect = Inl ()\<rparr>,
     \<lparr>rc_backends = [test_backend ''ext-a'' External [''m1''] [''code''], test_backend ''loc-b'' Local [''m1''] [],
        test_backend ''loc-c'' Local [''m1''] [''code'']],
      rc_model = ''m1'', rc_tags = [''code''], rc_private = True, rc_expect = Inr ''loc-c''\<rparr>]"

definition case_passes :: "routing_case \<Rightarrow> bool" where
  "case_passes c =
     (case (rc_expect c, route (with_policy (rc_backends c) StaticPolicy)
                           (test_query (rc_model c) (rc_tags c)) (rc_private c)) of
        (Inr want, Inr b) \<Rightarrow> be_name b = want
      | (Inl _, Inl (NoEligibleBackend _ _ _)) \<Rightarrow> True
      | _ \<Rightarrow> False)"

definition static_priority_routing_table :: bool where
  "static_priority_routing_table = list_all case_passes routing_cases"

section \<open>The EWMA tests\<close>

text \<open>A test that builds an EWMA policy fails where the constructor panics.\<close>

definition with_ewma :: "f64 \<Rightarrow> (ewma \<Rightarrow> bool) \<Rightarrow> bool" where
  "with_ewma alpha body = (case ewma_new alpha of None \<Rightarrow> False | Some e \<Rightarrow> body e)"

definition ewma_prefers_lowest_observed_latency :: bool where
  "ewma_prefers_lowest_observed_latency =
     with_ewma (Fin (1 / 2)) (\<lambda>e.
       let backends = [test_backend ''slow'' Local [''m''] [], test_backend ''fast'' Local [''m''] []];
           e1 = observe e ''slow'' (from_millis 800);
           e2 = observe e1 ''fast'' (from_millis 20)
       in routed_name (with_policy backends (EwmaPolicy e2)) (test_query ''m'' []) False = Some ''fast'')"

definition ewma_unseen_backend_is_probed_first :: bool where
  "ewma_unseen_backend_is_probed_first =
     with_ewma (Fin (1 / 2)) (\<lambda>e.
       let backends = [test_backend ''seen'' Local [''m''] [], test_backend ''cold'' Local [''m''] []];
           e1 = observe e ''seen'' (from_millis 5)
       in routed_name (with_policy backends (EwmaPolicy e1)) (test_query ''m'' []) False = Some ''cold'')"

definition ewma_blends_with_alpha :: bool where
  "ewma_blends_with_alpha =
     with_ewma (Fin (1 / 2)) (\<lambda>e.
       let e1 = observe e ''b'' (from_millis 100); e2 = observe e1 ''b'' (from_millis 200);
           e3 = observe e2 ''b'' (from_millis 50)
       in latency_ms e1 ''b'' = Some (Fin 100) \<and> latency_ms e2 ''b'' = Some (Fin 150) \<and>
          latency_ms e3 ''b'' = Some (Fin 100))"

definition ewma_ties_break_toward_config_order :: bool where
  "ewma_ties_break_toward_config_order =
     with_ewma (Fin (1 / 2)) (\<lambda>e.
       let backends = [test_backend ''first'' Local [''m''] [], test_backend ''second'' Local [''m''] []];
           e1 = observe e ''first'' (from_millis 10); e2 = observe e1 ''second'' (from_millis 10)
       in routed_name (with_policy backends (EwmaPolicy e2)) (test_query ''m'' []) False = Some ''first'')"

definition ewma_private_ignores_faster_external :: bool where
  "ewma_private_ignores_faster_external =
     with_ewma (Fin (1 / 2)) (\<lambda>e.
       let backends = [test_backend ''ext-fast'' External [''m''] [], test_backend ''loc-slow'' Local [''m''] []];
           e1 = observe e ''ext-fast'' (from_millis 1); e2 = observe e1 ''loc-slow'' (from_millis 900);
           router = with_policy backends (EwmaPolicy e2)
       in routed_name router (test_query ''m'' []) False = Some ''ext-fast'' \<and>
          routed_name router (test_query ''m'' []) True = Some ''loc-slow'')"

text \<open>The test passes when the constructor panics.\<close>

definition ewma_rejects_bad_alpha :: bool where
  "ewma_rejects_bad_alpha = (ewma_new (Fin 0) = None)"

definition route_error_carries_context :: bool where
  "route_error_carries_context =
     (route (with_policy [test_backend ''ext'' External [''m''] []] StaticPolicy)
        (test_query ''m'' [''code'']) True = Inl (NoEligibleBackend ''m'' [''code''] ''private''))"

section \<open>The model passes them\<close>

lemma routing_table_passes: "static_priority_routing_table"
  by (simp add: static_priority_routing_table_def routing_cases_def case_passes_def route_eq with_policy_def
      test_query_def with_tags_def new_query_def test_backend_def eligible_def select_def static_choose_def)

lemma half_new: "ewma_new (Fin (1 / 2)) = Some \<lparr>ew_alpha = Fin (1 / 2), ew_stats = Map.empty\<rparr>"
  by (simp add: ewma_new_def f64_gt_def f64_le_def)

lemmas ewma_test_simps = with_ewma_def half_new routed_name_def route_eq with_policy_def test_query_def
  with_tags_def new_query_def test_backend_def eligible_def select_def ewma_choose_def ewma_score_def
  observe_def Let_def millis_samples

lemma half_blend:
  assumes "fl (s / 2) = Fin a" "fl (x / 2) = Fin b"
  shows "blend (Fin (1 / 2)) (Fin s) (Fin x) = fl (a + b)"
proof -
  have "f64_sub (Fin 1) (Fin (1 / 2)) = Fin (1 / 2)"
    by (simp add: f64_sub_def fl_small)
  then show ?thesis using assms by (simp add: blend_def mult.commute)
qed

lemma ewma_selection_tests_pass:
  "ewma_prefers_lowest_observed_latency" "ewma_unseen_backend_is_probed_first"
  "ewma_ties_break_toward_config_order" "ewma_private_ignores_faster_external"
  by (simp_all add: ewma_prefers_lowest_observed_latency_def ewma_unseen_backend_is_probed_first_def
      ewma_ties_break_toward_config_order_def ewma_private_ignores_faster_external_def ewma_test_simps)

lemma ewma_blend_test_passes: "ewma_blends_with_alpha"
proof -
  have nat: "fl (of_nat n) = Fin (of_nat n)" if "n \<le> 2 ^ 53" for n using fl_of_nat[OF that] .
  have f: "fl 100 = Fin 100" "fl 50 = Fin 50" "fl 25 = Fin 25" "fl 75 = Fin 75" "fl 150 = Fin 150"
    using nat[of 100] nat[of 50] nat[of 25] nat[of 75] nat[of 150] by simp_all
  have "blend (Fin (1 / 2)) (Fin 200) (Fin 100) = Fin 150" "blend (Fin (1 / 2)) (Fin 50) (Fin 150) = Fin 100"
    using half_blend[of 200 100 100 50] half_blend[of 50 25 150 75] f by simp_all
  then show ?thesis
    by (simp add: ewma_blends_with_alpha_def with_ewma_def half_new observe_def millis_samples latency_ms_def Let_def)
qed

lemma error_tests_pass: "ewma_rejects_bad_alpha" "route_error_carries_context"
  by (simp_all add: ewma_rejects_bad_alpha_def ewma_new_def f64_gt_def route_error_carries_context_def route_eq
      with_policy_def test_query_def with_tags_def new_query_def test_backend_def eligible_def select_def
      static_choose_def)

section \<open>The property tests\<close>

definition model_pool :: "string list" where
  "model_pool = [''alpha'', ''beta'', ''gamma'']"

definition tag_pool :: "string list" where
  "tag_pool = [''code'', ''fast'', ''cheap'']"

text \<open>
  What the generators build from the numbers they draw: a backend table from a list of (local, models,
  tags) specifications, and a query from a model and a list of tags.
\<close>

definition arb_backends :: "(bool \<times> nat list \<times> nat list) list \<Rightarrow> backend list" where
  "arb_backends specs =
     map (\<lambda>(i, local, models, tags).
            test_backend (''b'' @ show_nat i) (if local then Local else External)
              (map ((!) model_pool) models) (map ((!) tag_pool) tags))
       (enumerate 0 specs)"

definition arb_query :: "string \<Rightarrow> nat list \<Rightarrow> route_query" where
  "arb_query model tags = with_tags (new_query model) (map ((!) tag_pool) tags)"

definition malicious_choose :: "nat \<Rightarrow> backend list \<Rightarrow> nat option" where
  "malicious_choose index candidates = Some index"

datatype policy_spec = SpecStatic | SpecEwma u16 | SpecMalicious nat

text \<open>No result where the constructor of the policy panics.\<close>

definition build_policy :: "policy_spec \<Rightarrow> (nat \<times> u64) list \<Rightarrow> policy_object option" where
  "build_policy spec observations =
     (case spec of
        SpecStatic \<Rightarrow> Some StaticPolicy
      | SpecEwma alpha_milli \<Rightarrow>
          map_option (\<lambda>e. EwmaPolicy (foldl (\<lambda>e (idx, ms). observe e (''b'' @ show_nat idx) (from_millis ms))
                                      e observations))
            (ewma_new (fl (of_nat (unat alpha_milli) / 1000)))
      | SpecMalicious index \<Rightarrow> Some (OtherPolicy (malicious_choose index)))"

text \<open>The range the policy generator draws from.\<close>

definition spec_in_range :: "policy_spec \<Rightarrow> bool" where
  "spec_in_range spec = (case spec of
     SpecEwma alpha_milli \<Rightarrow> 1 \<le> unat alpha_milli \<and> unat alpha_milli \<le> 1000 | _ \<Rightarrow> True)"

definition test_private_never_routes_external ::
  "backend list \<Rightarrow> route_query \<Rightarrow> policy_spec \<Rightarrow> (nat \<times> u64) list \<Rightarrow> bool" where
  "test_private_never_routes_external backends query spec observations =
     (case build_policy spec observations of
        None \<Rightarrow> False
      | Some policy \<Rightarrow>
         (case route (with_policy backends policy) query True of
            Inr chosen \<Rightarrow> be_privacy chosen = Local \<and> serves_model chosen (rq_model query) \<and>
              has_capability_tags chosen (rq_required_tags query)
          | Inl (NoEligibleBackend _ _ privacy) \<Rightarrow> privacy = ''private''))"

definition test_shareable_selection_is_always_eligible ::
  "backend list \<Rightarrow> route_query \<Rightarrow> policy_spec \<Rightarrow> (nat \<times> u64) list \<Rightarrow> bool" where
  "test_shareable_selection_is_always_eligible backends query spec observations =
     (case build_policy spec observations of
        None \<Rightarrow> False
      | Some policy \<Rightarrow>
         (case route (with_policy backends policy) query False of
            Inr chosen \<Rightarrow> serves_model chosen (rq_model query) \<and>
              has_capability_tags chosen (rq_required_tags query)
          | Inl _ \<Rightarrow> True))"

definition test_honest_policies_are_complete ::
  "backend list \<Rightarrow> route_query \<Rightarrow> u16 \<Rightarrow> (nat \<times> u64) list \<Rightarrow> bool \<Rightarrow> bool" where
  "test_honest_policies_are_complete backends query alpha_milli observations use_ewma =
     (case build_policy (if use_ewma then SpecEwma alpha_milli else SpecStatic) observations of
        None \<Rightarrow> False
      | Some policy \<Rightarrow>
          (let eligible_exists = (\<lambda>private. list_ex (\<lambda>b. (\<not> private \<or> be_privacy b = Local) \<and>
                 serves_model b (rq_model query) \<and> has_capability_tags b (rq_required_tags query)) backends);
               router = with_policy backends policy
           in list_all (\<lambda>private. \<not> isl (route router query private) = eligible_exists private) [False, True]))"

lemma milli_alpha:
  assumes "1 \<le> n" "n \<le> 1000"
  shows "\<exists>a. fl (of_nat n / 1000) = Fin a \<and> 0 < a \<and> a \<le> 1"
proof -
  let ?x = "of_nat n / 1000 :: rat"
  have x: "2 powi (- 10) \<le> ?x" "?x \<le> 1" using assms by (simp_all add: power_int_minus field_simps)
  have "round_rat (2 powi (- 10)) \<le> round_rat ?x" "round_rat ?x \<le> round_rat 1"
    using x by (intro round_rat_mono; simp add: order_trans[OF _ x(1)])+
  moreover have "round_rat (2 powi (- 10)) = 2 powi (- 10)" "round_rat 1 = (1 :: rat)"
    using round_rat_exact[of 1 "- 10"] round_rat_exact[of 1 0] by simp_all
  ultimately have "2 powi (- 10) \<le> round_rat ?x" "round_rat ?x \<le> 1" by simp_all
  moreover have "fl ?x = Fin (round_rat ?x)" using x by (intro fl_small) auto
  ultimately show ?thesis using powi_pos[of "- 10"] by (intro exI[of _ "round_rat ?x"]) linarith
qed

lemma build_policy_total: "spec_in_range spec \<Longrightarrow> \<exists>p. build_policy spec observations = Some p"
proof (cases spec)
  case (SpecEwma alpha)
  assume "spec_in_range spec"
  then obtain a where "fl (of_nat (unat alpha) / 1000) = Fin a" "0 < a" "a \<le> 1"
    using milli_alpha[of "unat alpha"] SpecEwma by (auto simp: spec_in_range_def)
  then have "ewma_new (fl (of_nat (unat alpha) / 1000)) = Some \<lparr>ew_alpha = Fin a, ew_stats = Map.empty\<rparr>"
    by (simp add: ewma_new_Some)
  then show ?thesis by (simp add: build_policy_def SpecEwma)
qed (simp_all add: build_policy_def)

lemma eligible_unfold:
  "eligible q p b \<longleftrightarrow> (\<not> p \<or> be_privacy b = Local) \<and> serves_model b (rq_model q) \<and>
     has_capability_tags b (rq_required_tags q)"
  by (auto simp: eligible_def)

text \<open>C36: the crate's property tests hold for every input, not only for the sampled ones: for all backend
  tables, queries and latency histories and for every policy in the generator's range, the malicious
  policy with any index included, a private request resolves to an eligible Local backend or fails as
  "private", a shareable one to an eligible backend, and static priority and EWMA find a backend
  exactly when an eligible one exists; no policy of the range makes its constructor panic.\<close>
theorem property_tests_hold_universally:
  assumes "spec_in_range spec" and "1 \<le> unat alpha_milli" and "unat alpha_milli \<le> 1000"
  shows "test_private_never_routes_external backends query spec observations
    \<and> test_shareable_selection_is_always_eligible backends query spec observations
    \<and> test_honest_policies_are_complete backends query alpha_milli observations use_ewma"
proof (intro conjI)
  obtain p where p: "build_policy spec observations = Some p" using build_policy_total[OF assms(1)] by blast
  show "test_private_never_routes_external backends query spec observations"
    using route_only_eligible[where r = "with_policy backends p" and q = query and p = True]
    by (auto simp: test_private_never_routes_external_def p eligible_unfold split: sum.splits route_error.splits)
  show "test_shareable_selection_is_always_eligible backends query spec observations"
    using route_only_eligible[where r = "with_policy backends p" and q = query and p = False]
    by (auto simp: test_shareable_selection_is_always_eligible_def p eligible_unfold split: sum.splits)
  let ?spec = "if use_ewma then SpecEwma alpha_milli else SpecStatic"
  have "spec_in_range ?spec" using assms by (simp add: spec_in_range_def)
  then obtain h where h: "build_policy ?spec observations = Some h" using build_policy_total by blast
  then have "h = StaticPolicy \<or> (\<exists>e. h = EwmaPolicy e)"
    by (auto simp: build_policy_def split: if_splits)
  then have complete: "isl (route (with_policy backends h) query pv) \<longleftrightarrow> \<not> list_ex (eligible query pv) backends" for pv :: bool
    using honest_policies_complete[of backends query pv] by auto
  show "test_honest_policies_are_complete backends query alpha_milli observations use_ewma"
    using complete[of False] complete[of True]
    by (simp add: test_honest_policies_are_complete_def h Let_def eligible_unfold[abs_def]
        del: serves_model_iff has_capability_tags_iff)
qed

lemma property_tests_hold_universally_witness:
  "test_private_never_routes_external (arb_backends [(False, [0], []), (True, [0, 1], [2])]) (arb_query ''alpha'' [])
       (SpecMalicious 7) []
   \<and> test_honest_policies_are_complete (arb_backends [(False, [0], []), (True, [0, 1], [2])]) (arb_query ''alpha'' [2])
       300 [(0, 40), (1, 7)] True"
  using property_tests_hold_universally[of "SpecMalicious 7" 300 _ _ "[]" True]
    property_tests_hold_universally[of "SpecMalicious 7" 300 _ _ "[(0, 40), (1, 7)]" True]
  by (simp add: spec_in_range_def)

end
