(* ===== verification/Config_Tests.thy ===== *)
theory Config_Tests
  imports Router_Tests
begin

text \<open>
  The unit tests of \<open>src/config.rs\<close> (and the one of \<open>src/router.rs\<close> that starts from a
  configuration text) over the model.  The TOML and socket-address parsers are arguments; what they make of
  the texts that occur in the tests is listed once (\<open>toml_readings\<close>).
\<close>

section \<open>Fixtures\<close>

text \<open>Build an environment lookup over a static table.\<close>

definition test_env :: "(string \<times> string) list \<Rightarrow> env" where
  "test_env pairs = (\<lambda>k. map_option snd (find (\<lambda>(name, _). name = k) pairs))"

text \<open>A raw string literal: its lines at the indentation of the source, and the closing line.\<close>

definition raw_text :: "nat \<Rightarrow> string list \<Rightarrow> string" where
  "raw_text indent ls =
     (let nl = CHR 0x0A
      in nl # concat (map (\<lambda>l. (if l = [] then [] else replicate indent CHR '' '') @ l @ [nl]) ls)
           @ replicate (indent - 4) CHR '' '')"

definition full_toml :: string where
  "full_toml = raw_text 8
     [''listen = \"127.0.0.1:9000\"'',
      [],
      ''[policy]'',
      ''kind = \"ewma_latency\"'',
      ''alpha = 0.5'',
      [],
      ''[[backends]]'',
      ''name = \"local-llm\"'',
      ''base_url_env = \"LLM_BASE_URL\"'',
      ''models = [\"qwen-coder\", \"qwen-chat\"]'',
      ''capability_tags = [\"code\", \"fast\"]'',
      ''privacy = \"local\"'',
      [],
      ''[[backends]]'',
      ''name = \"openai\"'',
      ''base_url_env = \"OPENAI_BASE_URL\"'',
      ''api_key_env = \"OPENAI_API_KEY\"'',
      ''models = [\"gpt-4o\"]'',
      ''capability_tags = [\"general\"]'',
      ''privacy = \"external\"'',
      [],
      ''[[virtual_keys]]'',
      ''name = \"dev\"'',
      ''key_env = \"PATCHBAY_KEY_DEV\"'',
      ''enforce_private = true'']"

definition full_env :: "(string \<times> string) list" where
  "full_env =
     [(''LLM_BASE_URL'', ''http://127.0.0.1:8000/''),
      (''OPENAI_BASE_URL'', ''https://api.example.com''),
      (''OPENAI_API_KEY'', ''test-key-abc''),
      (''PATCHBAY_KEY_DEV'', ''vk-dev-123'')]"

definition local_env :: "(string \<times> string) list" where
  "local_env = [(''LLM_BASE_URL'', ''http://x'')]"

text \<open>The texts with a single backend differ in three lines only.\<close>

definition backend_lines :: "string \<Rightarrow> string \<Rightarrow> string \<Rightarrow> string list" where
  "backend_lines var models privacy =
     [''[[backends]]'',
      ''name = \"b\"'',
      ''base_url_env = \"'' @ var @ ''\"'',
      ''models = '' @ models,
      ''privacy = \"'' @ privacy @ ''\"'']"

definition backend_toml :: "string \<Rightarrow> string \<Rightarrow> string \<Rightarrow> string" where
  "backend_toml var models privacy = raw_text 12 (backend_lines var models privacy)"

definition duplicate_toml :: string where
  "duplicate_toml = raw_text 12
     (backend_lines ''LLM_BASE_URL'' ''[\"m\"]'' ''local'' @ [] # backend_lines ''LLM_BASE_URL'' ''[\"m\"]'' ''external'')"

definition alpha_toml :: "string \<Rightarrow> string" where
  "alpha_toml alpha = raw_text 16
     ([''[policy]'', ''kind = \"ewma_latency\"'', ''alpha = '' @ alpha, []]
      @ backend_lines ''LLM_BASE_URL'' ''[\"m\"]'' ''local'')"

definition keys_toml :: string where
  "keys_toml = raw_text 12
     (backend_lines ''LLM_BASE_URL'' ''[\"m\"]'' ''local'' @
      [[], ''[[virtual_keys]]'', ''name = \"a\"'', ''key_env = \"KEY_A\"'',
       [], ''[[virtual_keys]]'', ''name = \"b\"'', ''key_env = \"KEY_B\"''])"

definition listen_toml :: string where
  "listen_toml = ''listen = \"0.0.0.0:1\"''"

definition unknown_toml :: string where
  "unknown_toml = raw_text 12 [''listen = \"0.0.0.0:1\"'', ''surprise = true'']"

definition policy_toml :: string where
  "policy_toml = raw_text 12
     ([''[policy]'', ''kind = \"ewma_latency\"'', []] @ backend_lines ''LLM_BASE_URL'' ''[\"m\"]'' ''local'')"

section \<open>Tests\<close>

type_synonym toml_parser = "string \<Rightarrow> string + raw_config"

definition full_config_parses_and_resolves :: "toml_parser \<Rightarrow> (string \<Rightarrow> 'addr option) \<Rightarrow> bool" where
  "full_config_parses_and_resolves toml_parse parse_addr =
     (case from_toml_str toml_parse parse_addr full_toml (test_env full_env) of
        Inl _ \<Rightarrow> False
      | Inr cfg \<Rightarrow>
          parse_addr ''127.0.0.1:9000'' = Some (cfg_listen cfg) \<and>
          length (cfg_backends cfg) = 2 \<and>
          (let loc = cfg_backends cfg ! 0
           in be_name loc = ''local-llm'' \<and>
              be_base_url loc = ''http://127.0.0.1:8000'' \<and>
              be_api_key loc = None \<and>
              be_privacy loc = Local \<and>
              serves_model loc ''qwen-coder'' \<and>
              \<not> serves_model loc ''gpt-4o'' \<and>
              has_capability_tags loc [''code''] \<and>
              has_capability_tags loc [''code'', ''fast''] \<and>
              \<not> has_capability_tags loc [''code'', ''general'']) \<and>
          (let ext = cfg_backends cfg ! 1
           in be_privacy ext = External \<and>
              (case be_api_key ext of None \<Rightarrow> False | Some k \<Rightarrow> expose k = ''test-key-abc'')) \<and>
          length (cfg_virtual_keys cfg) = 1 \<and>
          vk_enforce_private (cfg_virtual_keys cfg ! 0) \<and>
          expose (vk_key (cfg_virtual_keys cfg ! 0)) = ''vk-dev-123'' \<and>
          cfg_policy cfg = EwmaLatency (Fin (1 / 2)))"

definition policy_defaults_to_static_priority :: "toml_parser \<Rightarrow> (string \<Rightarrow> 'addr option) \<Rightarrow> bool" where
  "policy_defaults_to_static_priority toml_parse parse_addr =
     (case from_toml_str toml_parse parse_addr (backend_toml ''LLM_BASE_URL'' ''[\"m\"]'' ''local'') (test_env local_env) of
        Inl _ \<Rightarrow> False
      | Inr cfg \<Rightarrow> cfg_policy cfg = StaticPriority \<and> cfg_virtual_keys cfg = [])"

text \<open>The other tests look at the error; \<open>rejected_with\<close> is \<open>unwrap_err\<close> followed by \<open>matches!\<close>.\<close>

definition rejected_with :: "(config_error \<Rightarrow> bool) \<Rightarrow> config_error + 'a \<Rightarrow> bool" where
  "rejected_with p r = (case r of Inl e \<Rightarrow> p e | Inr _ \<Rightarrow> False)"

definition missing_backend_env_is_an_error :: "toml_parser \<Rightarrow> (string \<Rightarrow> 'addr option) \<Rightarrow> bool" where
  "missing_backend_env_is_an_error toml_parse parse_addr =
     rejected_with (\<lambda>e. case e of MissingEnv _ _ var \<Rightarrow> var = ''LLM_BASE_URL'' | _ \<Rightarrow> False)
       (from_toml_str toml_parse parse_addr full_toml (test_env []))"

definition no_backends_is_an_error :: "toml_parser \<Rightarrow> (string \<Rightarrow> 'addr option) \<Rightarrow> bool" where
  "no_backends_is_an_error toml_parse parse_addr =
     rejected_with (\<lambda>e. e = NoBackends) (from_toml_str toml_parse parse_addr listen_toml (test_env []))"

definition duplicate_backend_names_rejected :: "toml_parser \<Rightarrow> (string \<Rightarrow> 'addr option) \<Rightarrow> bool" where
  "duplicate_backend_names_rejected toml_parse parse_addr =
     rejected_with (\<lambda>e. case e of DuplicateBackend n \<Rightarrow> n = ''b'' | _ \<Rightarrow> False)
       (from_toml_str toml_parse parse_addr duplicate_toml (test_env local_env))"

definition invalid_privacy_value_rejected :: "toml_parser \<Rightarrow> (string \<Rightarrow> 'addr option) \<Rightarrow> bool" where
  "invalid_privacy_value_rejected toml_parse parse_addr =
     rejected_with (\<lambda>e. case e of Parse _ \<Rightarrow> True | _ \<Rightarrow> False)
       (from_toml_str toml_parse parse_addr (backend_toml ''LLM_BASE_URL'' ''[\"m\"]'' ''cloudish'') (test_env local_env))"

definition non_http_base_url_rejected :: "toml_parser \<Rightarrow> (string \<Rightarrow> 'addr option) \<Rightarrow> bool" where
  "non_http_base_url_rejected toml_parse parse_addr =
     rejected_with (\<lambda>e. case e of InvalidBaseUrl _ _ \<Rightarrow> True | _ \<Rightarrow> False)
       (from_toml_str toml_parse parse_addr (backend_toml ''LLM_BASE_URL'' ''[\"m\"]'' ''local'')
          (test_env [(''LLM_BASE_URL'', ''ftp://x'')]))"

definition empty_models_rejected :: "toml_parser \<Rightarrow> (string \<Rightarrow> 'addr option) \<Rightarrow> bool" where
  "empty_models_rejected toml_parse parse_addr =
     rejected_with (\<lambda>e. case e of NoModels _ \<Rightarrow> True | _ \<Rightarrow> False)
       (from_toml_str toml_parse parse_addr (backend_toml ''LLM_BASE_URL'' ''[]'' ''local'') (test_env local_env))"

definition invalid_env_var_name_rejected :: "toml_parser \<Rightarrow> (string \<Rightarrow> 'addr option) \<Rightarrow> bool" where
  "invalid_env_var_name_rejected toml_parse parse_addr =
     rejected_with (\<lambda>e. case e of InvalidEnvName _ field _ \<Rightarrow> field = ''base_url_env'' | _ \<Rightarrow> False)
       (from_toml_str toml_parse parse_addr (backend_toml ''9BAD NAME'' ''[\"m\"]'' ''local'') (test_env []))"

definition alpha_out_of_range_rejected :: "toml_parser \<Rightarrow> (string \<Rightarrow> 'addr option) \<Rightarrow> bool" where
  "alpha_out_of_range_rejected toml_parse parse_addr =
     list_all (\<lambda>alpha.
       rejected_with (\<lambda>e. case e of InvalidAlpha _ \<Rightarrow> True | _ \<Rightarrow> False)
         (from_toml_str toml_parse parse_addr (alpha_toml alpha) (test_env local_env)))
       [''0.0'', ''1.5'', ''-0.2'']"

definition duplicate_virtual_key_secrets_rejected :: "toml_parser \<Rightarrow> (string \<Rightarrow> 'addr option) \<Rightarrow> bool" where
  "duplicate_virtual_key_secrets_rejected toml_parse parse_addr =
     rejected_with (\<lambda>e. case e of DuplicateVirtualKeySecret _ _ \<Rightarrow> True | _ \<Rightarrow> False)
       (from_toml_str toml_parse parse_addr keys_toml
          (test_env [(''LLM_BASE_URL'', ''http://x''), (''KEY_A'', ''same-secret''), (''KEY_B'', ''same-secret'')]))"

definition unknown_fields_rejected :: "toml_parser \<Rightarrow> (string \<Rightarrow> 'addr option) \<Rightarrow> bool" where
  "unknown_fields_rejected toml_parse parse_addr =
     rejected_with (\<lambda>e. case e of Parse _ \<Rightarrow> True | _ \<Rightarrow> False)
       (from_toml_str toml_parse parse_addr unknown_toml (test_env []))"

definition secret_debug_is_redacted :: bool where
  "secret_debug_is_redacted = (secret_debug (Secret ''super-sensitive'') = ''Secret(<redacted>)'')"

definition from_config_builds_each_policy :: "toml_parser \<Rightarrow> (string \<Rightarrow> 'addr option) \<Rightarrow> bool" where
  "from_config_builds_each_policy toml_parse parse_addr =
     (case from_toml_str toml_parse parse_addr policy_toml
             (\<lambda>k. if k = ''LLM_BASE_URL'' then Some ''http://x'' else None) of
        Inl _ \<Rightarrow> False
      | Inr cfg \<Rightarrow>
          (case router_from_config cfg of
             None \<Rightarrow> False
           | Some router \<Rightarrow>
               (case route router \<lparr>rq_model = ''m'', rq_required_tags = []\<rparr> True of
                  Inl _ \<Rightarrow> False | Inr b \<Rightarrow> be_name b = ''b'')))"

section \<open>What the parsers read\<close>

text \<open>
  The schema derived for the TOML library: absent fields take their defaults, an unknown privacy value
  and an unknown field are errors (\<open>None\<close>), and a decimal literal is rounded to the nearest double.
\<close>

definition one_backend :: "string \<Rightarrow> string list \<Rightarrow> privacy \<Rightarrow> raw_backend" where
  "one_backend var models privacy =
     \<lparr>rb_name = ''b'', rb_base_url_env = var, rb_api_key_env = None, rb_models = models,
      rb_capability_tags = [], rb_privacy = privacy\<rparr>"

definition reading :: "raw_backend list \<Rightarrow> raw_virtual_key list \<Rightarrow> raw_policy \<Rightarrow> raw_config option" where
  "reading backends keys policy =
     Some \<lparr>raw_listen = default_listen, raw_backends = backends, raw_virtual_keys = keys, raw_policy = policy\<rparr>"

definition toml_texts :: "string list" where
  "toml_texts =
     [full_toml,
      backend_toml ''LLM_BASE_URL'' ''[\"m\"]'' ''local'',
      listen_toml,
      duplicate_toml,
      backend_toml ''LLM_BASE_URL'' ''[\"m\"]'' ''cloudish'',
      backend_toml ''LLM_BASE_URL'' ''[]'' ''local'',
      backend_toml ''9BAD NAME'' ''[\"m\"]'' ''local'',
      alpha_toml ''0.0'', alpha_toml ''1.5'', alpha_toml ''-0.2'',
      keys_toml,
      unknown_toml,
      policy_toml]"

definition toml_values :: "raw_config option list" where
  "toml_values =
     (let b = one_backend ''LLM_BASE_URL'' [''m''] Local
      in [Some \<lparr>raw_listen = ''127.0.0.1:9000'',
           raw_backends =
             [\<lparr>rb_name = ''local-llm'', rb_base_url_env = ''LLM_BASE_URL'', rb_api_key_env = None,
               rb_models = [''qwen-coder'', ''qwen-chat''], rb_capability_tags = [''code'', ''fast''],
               rb_privacy = Local\<rparr>,
              \<lparr>rb_name = ''openai'', rb_base_url_env = ''OPENAI_BASE_URL'', rb_api_key_env = Some ''OPENAI_API_KEY'',
               rb_models = [''gpt-4o''], rb_capability_tags = [''general''], rb_privacy = External\<rparr>],
           raw_virtual_keys = [\<lparr>rv_name = ''dev'', rv_key_env = ''PATCHBAY_KEY_DEV'', rv_enforce_private = True\<rparr>],
           raw_policy = RawEwmaLatency (Fin (1 / 2))\<rparr>,
          reading [b] [] RawStaticPriority,
          Some \<lparr>raw_listen = ''0.0.0.0:1'', raw_backends = [], raw_virtual_keys = [], raw_policy = RawStaticPriority\<rparr>,
          reading [b, one_backend ''LLM_BASE_URL'' [''m''] External] [] RawStaticPriority,
          None,
          reading [one_backend ''LLM_BASE_URL'' [] Local] [] RawStaticPriority,
          reading [one_backend ''9BAD NAME'' [''m''] Local] [] RawStaticPriority,
          reading [b] [] (RawEwmaLatency (Fin 0)),
          reading [b] [] (RawEwmaLatency (Fin (3 / 2))),
          reading [b] [] (RawEwmaLatency (f64_neg (fl (1 / 5)))),
          reading [b] [\<lparr>rv_name = ''a'', rv_key_env = ''KEY_A'', rv_enforce_private = False\<rparr>,
                       \<lparr>rv_name = ''b'', rv_key_env = ''KEY_B'', rv_enforce_private = False\<rparr>] RawStaticPriority,
          None,
          reading [b] [] (RawEwmaLatency default_alpha)])"

definition toml_readings :: "(string \<times> raw_config option) list" where
  "toml_readings = zip toml_texts toml_values"

fun reads_as :: "string + raw_config \<Rightarrow> raw_config option \<Rightarrow> bool" where
  "reads_as r (Some raw) = (r = Inr raw)"
| "reads_as r None = isl r"

definition reads_toml :: "toml_parser \<Rightarrow> bool" where
  "reads_toml toml_parse = list_all (\<lambda>(t, r). reads_as (toml_parse t) r) toml_readings"

definition reads_addresses :: "(string \<Rightarrow> 'addr option) \<Rightarrow> bool" where
  "reads_addresses parse_addr =
     list_all (\<lambda>a. parse_addr a \<noteq> None) [''127.0.0.1:9000'', ''0.0.0.0:1'', default_listen]"

text \<open>The readings are consistent: the texts are different.\<close>

lemma toml_texts_distinct: "distinct toml_texts"
  by code_simp

lemma toml_readings_satisfiable:
  "reads_toml (\<lambda>t. case map_of toml_readings t of Some (Some raw) \<Rightarrow> Inr raw | _ \<Rightarrow> Inl ''invalid'')"
proof -
  have "map fst toml_readings = toml_texts"
    by (simp add: toml_readings_def toml_texts_def toml_values_def Let_def)
  then have "distinct (map fst toml_readings)" using toml_texts_distinct by simp
  then show ?thesis
    by (auto simp: reads_toml_def list_all_iff split: option.splits) 
qed

section \<open>The model passes them\<close>

lemmas toml_text_readings =
  toml_readings_def toml_texts_def toml_values_def one_backend_def reading_def Let_def

lemmas environment_names =
  test_env_def full_env_def local_env_def is_http_url_def starts_with_def
  is_ascii_alphabetic_def is_ascii_alphanumeric_def

lemma config_accepting_tests_pass:
  assumes "reads_toml toml_parse" and "reads_addresses parse_addr"
  shows "full_config_parses_and_resolves toml_parse parse_addr"
    "policy_defaults_to_static_priority toml_parse parse_addr"
  using assms
  by (auto simp: reads_toml_def toml_text_readings reads_addresses_def full_config_parses_and_resolves_def
      policy_defaults_to_static_priority_def from_toml_str_def resolve_backend_def resolve_base_url_def
      resolve_api_key_def environment_names trim_end_matches_def f64_gt_def f64_le_def)

lemma config_rejecting_tests_pass:
  assumes "reads_toml toml_parse" and "reads_addresses parse_addr"
  shows "missing_backend_env_is_an_error toml_parse parse_addr"
    "no_backends_is_an_error toml_parse parse_addr"
    "duplicate_backend_names_rejected toml_parse parse_addr"
    "invalid_privacy_value_rejected toml_parse parse_addr"
    "non_http_base_url_rejected toml_parse parse_addr"
    "empty_models_rejected toml_parse parse_addr"
    "invalid_env_var_name_rejected toml_parse parse_addr"
    "duplicate_virtual_key_secrets_rejected toml_parse parse_addr"
    "unknown_fields_rejected toml_parse parse_addr"
  using assms
  by (auto simp: reads_toml_def toml_text_readings reads_addresses_def rejected_with_def
      missing_backend_env_is_an_error_def no_backends_is_an_error_def duplicate_backend_names_rejected_def
      invalid_privacy_value_rejected_def non_http_base_url_rejected_def empty_models_rejected_def
      invalid_env_var_name_rejected_def duplicate_virtual_key_secrets_rejected_def unknown_fields_rejected_def
      from_toml_str_def resolve_backend_def resolve_base_url_def resolve_api_key_def environment_names
      split: sum.splits)

lemma default_alpha_accepted: "\<exists>a. default_alpha = Fin a \<and> 0 < a \<and> a \<le> 1"
  using milli_alpha[of 300] by (simp add: default_alpha_def)

lemma alpha_test_passes:
  assumes "reads_toml toml_parse" and "reads_addresses parse_addr"
  shows "alpha_out_of_range_rejected toml_parse parse_addr"
proof -
  have "f64_neg (fl (1 / 5)) = Fin (- round_rat (1 / 5))" "0 \<le> round_rat (1 / 5)"
    by (simp_all add: fl_small round_rat_nonneg)
  then show ?thesis using assms
    by (auto simp: reads_toml_def toml_text_readings reads_addresses_def rejected_with_def
        alpha_out_of_range_rejected_def from_toml_str_def resolve_backend_def resolve_base_url_def
        resolve_api_key_def environment_names f64_gt_def f64_le_def)
qed

text \<open>With one eligible backend, every honest policy finds it.\<close>

lemma sole_backend_routed:
  assumes "eligible q p b" and "policy = StaticPolicy \<or> (\<exists>e. policy = EwmaPolicy e)"
  shows "route (with_policy [b] policy) q p = Inr b"
proof -
  have "\<not> isl (route (with_policy [b] policy) q p)"
    using honest_policies_complete[of "[b]" q p] assms by auto
  then obtain c where c: "route (with_policy [b] policy) q p = Inr c"
    by (cases "route (with_policy [b] policy) q p") auto
  then show ?thesis using route_only_eligible[where r = "with_policy [b] policy" and q = q and p = p] by (simp add: with_policy_def)
qed

lemma policy_test_passes:
  assumes "reads_toml toml_parse" and "reads_addresses parse_addr"
  shows "from_config_builds_each_policy toml_parse parse_addr"
proof -
  obtain a where a: "default_alpha = Fin a" "0 < a" "a \<le> 1" using default_alpha_accepted by blast
  define router where "router = with_policy
    [\<lparr>be_name = ''b'', be_base_url = ''http://x'', be_api_key = None, be_models = [''m''],
      be_capability_tags = [], be_privacy = Local\<rparr>] (EwmaPolicy \<lparr>ew_alpha = Fin a, ew_stats = Map.empty\<rparr>)"
  have "route router \<lparr>rq_model = ''m'', rq_required_tags = []\<rparr> True
      = Inr (hd (ro_backends router)) \<and> be_name (hd (ro_backends router)) = ''b''"
    unfolding router_def by (simp add: sole_backend_routed eligible_def) (simp add: with_policy_def)
  moreover have "ewma_new (Fin a) = Some \<lparr>ew_alpha = Fin a, ew_stats = Map.empty\<rparr>"
    using a(2,3) by (simp add: ewma_new_Some)
  ultimately show ?thesis using assms
    by (auto simp: reads_toml_def toml_text_readings reads_addresses_def from_config_builds_each_policy_def
        from_toml_str_def resolve_backend_def resolve_base_url_def resolve_api_key_def environment_names a
        f64_gt_def f64_le_def router_from_config_def trim_end_matches_def router_def)
qed

lemma secret_test_passes: "secret_debug_is_redacted"
  by (simp add: secret_debug_is_redacted_def)

end
