(* ===== verification/Scanner_Tests.thy ===== *)
theory Scanner_Tests
  imports Scanner
begin

text \<open>
  The unit tests of the usage scanner in \<open>src/upstream.rs\<close>.  The JSON library is an argument; what it
  makes of the payloads that occur in the tests is listed once (\<open>payload_readings\<close>).  The events of each
  test's byte stream are computed by the kernel, whatever the chunks.
\<close>

definition feed_chunks :: "(bytes \<Rightarrow> usage option option) \<Rightarrow> bytes list \<Rightarrow> scanner" where
  "feed_chunks parse_env chunks = feed_all parse_env chunks new_scanner"

definition total_of :: "scanner \<Rightarrow> u64 option" where
  "total_of s = map_option us_total (sc_last_usage s)"

definition extracts_usage_from_final_chunk :: "(bytes \<Rightarrow> usage option option) \<Rightarrow> bool" where
  "extracts_usage_from_final_chunk parse_env =
     (let s = feed_chunks parse_env
        [''data: {\"choices\":[{\"delta\":{\"content\":\"hi\"}}],\"usage\":null}'' @ [LF, LF],
         ''data: {\"choices\":[],\"usage\":{\"prompt_tokens\":7,\"completion_tokens\":42,\"total_tokens\":49}}'' @ [LF, LF],
         ''data: [DONE]'' @ [LF, LF]]
      in sc_last_usage s = Some \<lparr>us_prompt = 7, us_completion = 42, us_total = 49\<rparr> \<and> sc_saw_done s)"

definition events_split_at_arbitrary_chunk_boundaries :: "(bytes \<Rightarrow> usage option option) \<Rightarrow> bool" where
  "events_split_at_arbitrary_chunk_boundaries parse_env =
     (let s = feed_chunks parse_env
        [''data: {\"usage\":{\"prompt_to'', ''kens\":1,\"completion_tokens\":2,\"tot'', ''al_tokens\":3}}'' @ [LF],
         [LF] @ ''data: [D'', ''ONE]'' @ [LF, LF]]
      in sc_last_usage s = Some \<lparr>us_prompt = 1, us_completion = 2, us_total = 3\<rparr> \<and> sc_saw_done s)"

definition crlf_separators_are_understood :: "(bytes \<Rightarrow> usage option option) \<Rightarrow> bool" where
  "crlf_separators_are_understood parse_env =
     (let s = feed_chunks parse_env
        [''data: {\"usage\":{\"prompt_tokens\":5,\"completion_tokens\":6,\"total_tokens\":11}}'' @ [CR, LF, CR, LF],
         ''data: [DONE]'' @ [CR, LF, CR, LF]]
      in total_of s = Some 11 \<and> sc_saw_done s)"

definition cr_split_across_chunks_is_not_a_false_boundary :: "(bytes \<Rightarrow> usage option option) \<Rightarrow> bool" where
  "cr_split_across_chunks_is_not_a_false_boundary parse_env =
     (let s = feed_chunks parse_env
        [''data: {\"usage\":{\"total_tokens\":9}}'' @ [CR],
         [LF, CR, LF] @ ''data: [DONE]'' @ [CR, LF, CR, LF]]
      in total_of s = Some 9 \<and> sc_saw_done s)"

definition multiple_data_lines_join_with_newline :: "(bytes \<Rightarrow> usage option option) \<Rightarrow> bool" where
  "multiple_data_lines_join_with_newline parse_env =
     (let s = feed_chunks parse_env [''data: {\"usage\":{\"total_tokens\":'' @ [LF] @ ''data: 4}}'' @ [LF, LF]]
      in total_of s = Some 4)"

definition non_json_and_comment_events_are_ignored :: "(bytes \<Rightarrow> usage option option) \<Rightarrow> bool" where
  "non_json_and_comment_events_are_ignored parse_env =
     (let s = feed_chunks parse_env
        ['': keep-alive'' @ [LF, LF], ''event: ping'' @ [LF, LF], ''data: not json at all'' @ [LF, LF],
         ''data: {\"usage\":{\"total_tokens\":2}}'' @ [LF, LF]]
      in total_of s = Some 2)"

definition usage_null_is_not_usage :: "(bytes \<Rightarrow> usage option option) \<Rightarrow> bool" where
  "usage_null_is_not_usage parse_env =
     (let s = feed_chunks parse_env [''data: {\"choices\":[],\"usage\":null}'' @ [LF, LF]]
      in sc_last_usage s = None)"

definition last_usage_wins :: "(bytes \<Rightarrow> usage option option) \<Rightarrow> bool" where
  "last_usage_wins parse_env =
     (let s = feed_chunks parse_env
        [''data: {\"usage\":{\"total_tokens\":1}}'' @ [LF, LF], ''data: {\"usage\":{\"total_tokens\":2}}'' @ [LF, LF]]
      in total_of s = Some 2)"

definition oversized_event_disables_scanning :: "(bytes \<Rightarrow> usage option option) \<Rightarrow> bool" where
  "oversized_event_disables_scanning parse_env =
     (let s1 = feed parse_env ''data: '' new_scanner;
          s2 = feed parse_env (replicate (max_event_buffer + 1) CHR ''x'') s1;
          s3 = feed parse_env (''data: {\"usage\":{\"total_tokens\":3}}'' @ [LF, LF]) s2
      in sc_overflowed s2 \<and> sc_last_usage s3 = None)"

section \<open>What the JSON library reads\<close>

text \<open>Absent counts default to zero; \<open>usage: null\<close> is an envelope without usage.\<close>

definition payload_readings :: "(bytes \<times> usage option option) list" where
  "payload_readings =
    [(''{\"choices\":[{\"delta\":{\"content\":\"hi\"}}],\"usage\":null}'', Some None),
     (''{\"choices\":[],\"usage\":{\"prompt_tokens\":7,\"completion_tokens\":42,\"total_tokens\":49}}'',
      Some (Some \<lparr>us_prompt = 7, us_completion = 42, us_total = 49\<rparr>)),
     (''{\"usage\":{\"prompt_tokens\":1,\"completion_tokens\":2,\"total_tokens\":3}}'',
      Some (Some \<lparr>us_prompt = 1, us_completion = 2, us_total = 3\<rparr>)),
     (''{\"usage\":{\"prompt_tokens\":5,\"completion_tokens\":6,\"total_tokens\":11}}'',
      Some (Some \<lparr>us_prompt = 5, us_completion = 6, us_total = 11\<rparr>)),
     (''{\"usage\":{\"total_tokens\":9}}'', Some (Some \<lparr>us_prompt = 0, us_completion = 0, us_total = 9\<rparr>)),
     (''{\"usage\":{\"total_tokens\":'' @ [LF] @ ''4}}'', Some (Some \<lparr>us_prompt = 0, us_completion = 0, us_total = 4\<rparr>)),
     (''{\"usage\":{\"total_tokens\":1}}'', Some (Some \<lparr>us_prompt = 0, us_completion = 0, us_total = 1\<rparr>)),
     (''{\"usage\":{\"total_tokens\":2}}'', Some (Some \<lparr>us_prompt = 0, us_completion = 0, us_total = 2\<rparr>)),
     (''{\"choices\":[],\"usage\":null}'', Some None)]"

definition reads_payloads :: "(bytes \<Rightarrow> usage option option) \<Rightarrow> bool" where
  "reads_payloads parse_env = list_all (\<lambda>(payload, r). parse_env payload = r) payload_readings"

section \<open>The model passes them\<close>

text \<open>Short chunks amount to the events of their concatenation.\<close>

lemma feed_chunks_eq:
  assumes "length (concat cs) \<le> max_event_buffer" and "split_events (concat cs) = (es, rest)"
  shows "feed_chunks p cs = (process_all p es new_scanner)\<lparr>sc_buf := rest\<rparr>"
  using feed_all_eq[of p cs new_scanner] short_stream_no_overflow[of new_scanner cs p] assms
  by (simp add: feed_chunks_def)

text \<open>What an event does, once its payload is known: it is the end marker, or it mentions usage, or not.\<close>

datatype event_kind = EndMarker | Mentions bytes | Other

definition kind_of :: "bytes \<Rightarrow> event_kind" where
  "kind_of event = (case event_data event of
     None \<Rightarrow> Other
   | Some data \<Rightarrow> if data = ''[DONE]'' then EndMarker
       else if list_ex (\<lambda>w. w = ''\"usage\"'') (windows 7 data) then Mentions data else Other)"

fun apply_kind :: "(bytes \<Rightarrow> usage option option) \<Rightarrow> event_kind \<Rightarrow> scanner \<Rightarrow> scanner" where
  "apply_kind p EndMarker s = s\<lparr>sc_saw_done := True\<rparr>"
| "apply_kind p (Mentions data) s = (case p data of Some (Some u) \<Rightarrow> s\<lparr>sc_last_usage := Some u\<rparr> | _ \<Rightarrow> s)"
| "apply_kind p Other s = s"

lemma process_event_kind: "process_event p e s = apply_kind p (kind_of e) s"
  by (simp add: process_event_def kind_of_def split: option.split)

lemma process_all_kinds: "process_all p es s = foldl (\<lambda>s k. apply_kind p k s) s (map kind_of es)"
  by (induction es arbitrary: s) (simp_all add: process_event_kind)

definition kinds :: "bytes list \<Rightarrow> (event_kind list \<times> bytes) option" where
  "kinds cs =
     (if length (concat cs) \<le> 1000
      then (case split_events (concat cs) of (es, rest) \<Rightarrow> Some (map kind_of es, rest)) else None)"

lemma feed_chunks_kinds:
  assumes "kinds cs = Some (ks, rest)"
  shows "feed_chunks p cs = (foldl (\<lambda>s k. apply_kind p k s) new_scanner ks)\<lparr>sc_buf := rest\<rparr>"
proof -
  obtain es where es: "split_events (concat cs) = (es, rest)" "ks = map kind_of es"
    using assms by (auto simp: kinds_def split: prod.splits if_splits)
  have "length (concat cs) \<le> max_event_buffer"
    using assms by (simp add: kinds_def max_event_buffer_def split: if_splits)
  from feed_chunks_eq[OF this es(1)] show ?thesis by (simp add: process_all_kinds es(2))
qed

text \<open>The events of the test streams.\<close>

lemma stream_kinds:
  "kinds [''data: {\"choices\":[{\"delta\":{\"content\":\"hi\"}}],\"usage\":null}'' @ [LF, LF],
         ''data: {\"choices\":[],\"usage\":{\"prompt_tokens\":7,\"completion_tokens\":42,\"total_tokens\":49}}'' @ [LF, LF],
         ''data: [DONE]'' @ [LF, LF]] =
    Some ([Mentions ''{\"choices\":[{\"delta\":{\"content\":\"hi\"}}],\"usage\":null}'',
      Mentions ''{\"choices\":[],\"usage\":{\"prompt_tokens\":7,\"completion_tokens\":42,\"total_tokens\":49}}'', EndMarker], [])"
  "kinds [''data: {\"usage\":{\"prompt_to'', ''kens\":1,\"completion_tokens\":2,\"tot'', ''al_tokens\":3}}'' @ [LF],
         [LF] @ ''data: [D'', ''ONE]'' @ [LF, LF]] =
    Some ([Mentions ''{\"usage\":{\"prompt_tokens\":1,\"completion_tokens\":2,\"total_tokens\":3}}'', EndMarker], [])"
  "kinds [''data: {\"usage\":{\"prompt_tokens\":5,\"completion_tokens\":6,\"total_tokens\":11}}'' @ [CR, LF, CR, LF],
         ''data: [DONE]'' @ [CR, LF, CR, LF]] =
    Some ([Mentions ''{\"usage\":{\"prompt_tokens\":5,\"completion_tokens\":6,\"total_tokens\":11}}'', EndMarker], [])"
  "kinds [''data: {\"usage\":{\"total_tokens\":9}}'' @ [CR], [LF, CR, LF] @ ''data: [DONE]'' @ [CR, LF, CR, LF]] =
    Some ([Mentions ''{\"usage\":{\"total_tokens\":9}}'', EndMarker], [])"
  "kinds [''data: {\"usage\":{\"total_tokens\":'' @ [LF] @ ''data: 4}}'' @ [LF, LF]] =
    Some ([Mentions (''{\"usage\":{\"total_tokens\":'' @ [LF] @ ''4}}'')], [])"
  "kinds ['': keep-alive'' @ [LF, LF], ''event: ping'' @ [LF, LF], ''data: not json at all'' @ [LF, LF],
         ''data: {\"usage\":{\"total_tokens\":2}}'' @ [LF, LF]] =
    Some ([Other, Other, Other, Mentions ''{\"usage\":{\"total_tokens\":2}}''], [])"
  "kinds [''data: {\"choices\":[],\"usage\":null}'' @ [LF, LF]] =
    Some ([Mentions ''{\"choices\":[],\"usage\":null}''], [])"
  "kinds [''data: {\"usage\":{\"total_tokens\":1}}'' @ [LF, LF], ''data: {\"usage\":{\"total_tokens\":2}}'' @ [LF, LF]] =
    Some ([Mentions ''{\"usage\":{\"total_tokens\":1}}'', Mentions ''{\"usage\":{\"total_tokens\":2}}''], [])"
  by code_simp+

lemmas fed_streams = stream_kinds[THEN feed_chunks_kinds]

lemma event_tests_pass:
  assumes "reads_payloads parse_env"
  shows "extracts_usage_from_final_chunk parse_env" "events_split_at_arbitrary_chunk_boundaries parse_env"
    "crlf_separators_are_understood parse_env" "cr_split_across_chunks_is_not_a_false_boundary parse_env"
    "multiple_data_lines_join_with_newline parse_env" "non_json_and_comment_events_are_ignored parse_env"
    "usage_null_is_not_usage parse_env" "last_usage_wins parse_env"
  using assms
  unfolding extracts_usage_from_final_chunk_def fed_streams(1)
    events_split_at_arbitrary_chunk_boundaries_def fed_streams(2)
    crlf_separators_are_understood_def fed_streams(3)
    cr_split_across_chunks_is_not_a_false_boundary_def fed_streams(4)
    multiple_data_lines_join_with_newline_def fed_streams(5)
    non_json_and_comment_events_are_ignored_def fed_streams(6)
    usage_null_is_not_usage_def fed_streams(7) last_usage_wins_def fed_streams(8)
  by (simp_all add: reads_payloads_def payload_readings_def Let_def total_of_def new_scanner_def)

text \<open>A buffer without line terminators has no complete event.\<close>

lemma no_terminator_no_event:
  assumes "LF \<notin> set buf" "CR \<notin> set buf"
  shows "find_event_boundary buf = None"
proof -
  have nt: "term_at buf i = NotTerm" for i
    using assms by (auto simp: term_at_def byte_at_def in_set_conv_nth)
  have "find_from buf i = None" for i
    by (induction "length buf - i" arbitrary: i rule: less_induct) (subst find_from.simps, simp add: nt)
  then show ?thesis by (simp add: find_event_boundary_def)
qed

lemma overflow_test_passes: "oversized_event_disables_scanning parse_env"
proof -
  have idle: "drain parse_env s = s" if "LF \<notin> set (sc_buf s)" "CR \<notin> set (sc_buf s)" for s
    using no_terminator_no_event[OF that] by (subst drain.simps) simp
  have first: "feed parse_env ''data: '' new_scanner = new_scanner\<lparr>sc_buf := ''data: ''\<rparr>"
    by (simp add: feed_def idle Let_def max_event_buffer_def)
  have second: "feed parse_env (replicate (max_event_buffer + 1) CHR ''x'') (new_scanner\<lparr>sc_buf := ''data: ''\<rparr>) =
      new_scanner\<lparr>sc_buf := [], sc_overflowed := True\<rparr>"
    by (simp add: feed_def idle Let_def)
  show ?thesis
    unfolding oversized_event_disables_scanning_def Let_def first second by (simp add: feed_def new_scanner_def)
qed

end
