(* ===== verification/Unit_Tests.thy ===== *)
theory Unit_Tests
  imports Auth Budget Rate_Limits Metrics "HOL-Library.Sublist"
begin

text \<open>
  The unit tests of \<open>src/auth.rs\<close>, \<open>src/budget.rs\<close>, \<open>src/limits.rs\<close> and \<open>src/metrics.rs\<close> over the
  model.  A test is a predicate with its assertions in order; what it takes from outside the crate (the
  wall clock, the governor, the JSON library, the temporary directory) are its arguments, and the lemma
  that it passes says what it needs of them.
\<close>

section \<open>Authentication\<close>

definition make_key :: "string \<Rightarrow> string \<Rightarrow> bool \<Rightarrow> virtual_key" where
  "make_key name raw enforce_private = \<lparr>vk_name = name, vk_key = Secret raw, vk_enforce_private = enforce_private\<rparr>"

definition known_key_authenticates :: bool where
  "known_key_authenticates =
     (let store = from_virtual_keys [make_key ''dev'' ''sk-dev-abc'' False]
      in case authenticate store ''sk-dev-abc'' of
           None \<Rightarrow> False
         | Some who \<Rightarrow> ki_name who = ''dev'' \<and> \<not> ki_enforce_private who)"

definition unknown_key_returns_none :: bool where
  "unknown_key_returns_none =
     (let store = from_virtual_keys [make_key ''dev'' ''sk-dev-abc'' False]
      in authenticate store ''sk-wrong'' = None)"

definition enforce_private_is_propagated :: bool where
  "enforce_private_is_propagated =
     (let store = from_virtual_keys [make_key ''priv'' ''sk-priv-xyz'' True]
      in case authenticate store ''sk-priv-xyz'' of None \<Rightarrow> False | Some who \<Rightarrow> ki_enforce_private who)"

definition empty_store_is_open :: bool where
  "empty_store_is_open =
     (let store = from_virtual_keys [] in is_open store \<and> authenticate store ''whatever'' = None)"

definition multiple_keys_are_independent :: bool where
  "multiple_keys_are_independent =
     (let keys = [make_key ''a'' ''sk-aaa'' False, make_key ''b'' ''sk-bbb'' True];
          store = from_virtual_keys keys
      in map_option ki_name (authenticate store ''sk-aaa'') = Some ''a'' \<and>
         map_option ki_name (authenticate store ''sk-bbb'') = Some ''b'' \<and>
         authenticate store ''sk-ccc'' = None)"

lemma auth_tests_pass:
  "known_key_authenticates \<and> unknown_key_returns_none \<and> enforce_private_is_propagated \<and>
   empty_store_is_open \<and> multiple_keys_are_independent"
  by (simp add: known_key_authenticates_def unknown_key_returns_none_def enforce_private_is_propagated_def
      empty_store_is_open_def multiple_keys_are_independent_def make_key_def from_virtual_keys_def
      authenticate_def identity_of_def is_open_def)

section \<open>Budgets\<close>

definition test_usage :: "u64 \<Rightarrow> u64 \<Rightarrow> u64 \<Rightarrow> usage" where
  "test_usage prompt completion tot = \<lparr>us_prompt = prompt, us_completion = completion, us_total = tot\<rparr>"

text \<open>A ledger without a snapshot file: of the outside only the clock is read.\<close>

definition memory_ledger :: "(string \<rightharpoonup> budget_limit) \<Rightarrow> u64 \<Rightarrow> ledger" where
  "memory_ledger limits now = ledger_new (\<lambda>_. None) limits 3600 None now Map.empty"

definition ledger_with_limit :: "string \<Rightarrow> budget_limit \<Rightarrow> u64 \<Rightarrow> ledger" where
  "ledger_with_limit key limit now = memory_ledger [key \<mapsto> limit] now"

definition unconfigured_key_is_unlimited :: "u64 \<Rightarrow> bool" where
  "unconfigured_key_is_unlimited now =
     (fst (budget_check ''any-key'' (test_usage 1000000 1000000 2000000) (memory_ledger Map.empty now)) = Inr ())"

definition check_fails_when_total_exceeded :: "u64 \<Rightarrow> bool" where
  "check_fails_when_total_exceeded now =
     (let limit = budget_unlimited\<lparr>bl_max_total := Some 100\<rparr>;
          ledger = budget_record ''k'' (test_usage 50 50 100) (ledger_with_limit ''k'' limit now)
      in case fst (budget_check ''k'' (test_usage 0 0 1) ledger) of Inl (TotalTokens _ _) \<Rightarrow> True | _ \<Rightarrow> False)"

definition check_passes_when_under_limit :: "u64 \<Rightarrow> bool" where
  "check_passes_when_under_limit now =
     (let limit = budget_unlimited\<lparr>bl_max_total := Some 200\<rparr>;
          ledger = budget_record ''k'' (test_usage 50 50 100) (ledger_with_limit ''k'' limit now)
      in fst (budget_check ''k'' (test_usage 10 10 20) ledger) = Inr ())"

definition prompt_token_limit_is_checked :: "u64 \<Rightarrow> bool" where
  "prompt_token_limit_is_checked now =
     (let limit = budget_unlimited\<lparr>bl_max_prompt := Some 50\<rparr>;
          ledger = budget_record ''k'' (test_usage 40 0 40) (ledger_with_limit ''k'' limit now)
      in case fst (budget_check ''k'' (test_usage 20 0 20) ledger) of Inl (PromptTokens _ _) \<Rightarrow> True | _ \<Rightarrow> False)"

definition completion_token_limit_is_checked :: "u64 \<Rightarrow> bool" where
  "completion_token_limit_is_checked now =
     (let limit = budget_unlimited\<lparr>bl_max_completion := Some 30\<rparr>;
          ledger = budget_record ''k'' (test_usage 0 25 25) (ledger_with_limit ''k'' limit now)
      in case fst (budget_check ''k'' (test_usage 0 10 10) ledger) of Inl (CompletionTokens _ _) \<Rightarrow> True | _ \<Rightarrow> False)"

definition record_accumulates_usage :: "u64 \<Rightarrow> bool" where
  "record_accumulates_usage now =
     (let ledger = budget_record ''k'' (test_usage 5 5 10)
            (budget_record ''k'' (test_usage 10 20 30) (memory_ledger Map.empty now))
      in usage_for ledger ''k'' = Some (15, 25, 40))"

lemma budget_tests_pass:
  "unconfigured_key_is_unlimited now \<and> check_fails_when_total_exceeded now \<and> check_passes_when_under_limit now \<and>
   prompt_token_limit_is_checked now \<and> completion_token_limit_is_checked now \<and> record_accumulates_usage now"
  by (simp add: unconfigured_key_is_unlimited_def check_fails_when_total_exceeded_def
      check_passes_when_under_limit_def prompt_token_limit_is_checked_def completion_token_limit_is_checked_def
      record_accumulates_usage_def test_usage_def memory_ledger_def ledger_with_limit_def ledger_new_def Let_def
      budget_check_def budget_record_def counters_for_def store_counters_def add_usage_def fresh_counters_def
      would_exceed_def budget_limit_for_def budget_unlimited_def usage_for_def)

text \<open>
  The round trip through the snapshot file; \<open>now1\<close> and \<open>now2\<close> are the clock at the two constructor
  calls, \<open>dir\<close> is the temporary directory.
\<close>

definition flush_and_restore ::
  "(ledger_snapshot \<Rightarrow> string + string) \<Rightarrow> (string \<Rightarrow> ledger_snapshot option) \<Rightarrow> u64 \<Rightarrow> u64 \<Rightarrow> string \<Rightarrow> fs \<Rightarrow> bool" where
  "flush_and_restore to_json from_json now1 now2 dir fs =
     (let snap_path = \<lparr>pa_dir = dir, pa_file = ''budget.json''\<rparr>;
          limits = [''alice'' \<mapsto> budget_unlimited\<lparr>bl_max_total := Some 1000\<rparr>];
          ledger = budget_record ''alice'' (test_usage 100 200 300)
                     (ledger_new from_json limits 3600 (Some snap_path) now1 fs)
      in case budget_flush to_json WriteOk None ledger fs of
           (Inl e, fs') \<Rightarrow> False
         | (Inr _, fs') \<Rightarrow>
             usage_for (ledger_new from_json limits 3600 (Some snap_path) now2 fs') ''alice'' = Some (100, 200, 300))"

text \<open>The ledger the test flushes.\<close>

definition alice_ledger :: "u64 \<Rightarrow> string \<Rightarrow> ledger" where
  "alice_ledger now dir =
     \<lparr>lg_period_start = period_start_secs now 3600,
      lg_counters = [''alice'' \<mapsto> \<lparr>kc_prompt = 100, kc_completion = 200, kc_total = 300\<rparr>],
      lg_limits = [''alice'' \<mapsto> budget_unlimited\<lparr>bl_max_total := Some 1000\<rparr>],
      lg_snapshot_path = Some \<lparr>pa_dir = dir, pa_file = ''budget.json''\<rparr>\<rparr>"

text \<open>
  The round trip succeeds when the directory has no snapshot yet, the JSON library reads back what it
  printed, and both ledgers are created in the same hour.
\<close>

lemma flush_test_passes:
  assumes "fs \<lparr>pa_dir = dir, pa_file = ''budget.json''\<rparr> = None"
    and "to_json (ledger_to_snapshot (alice_ledger now1 dir)) = Inr json"
    and "from_json json = Some (ledger_to_snapshot (alice_ledger now1 dir))"
    and "now1 div 3600 = now2 div 3600"
  shows "flush_and_restore to_json from_json now1 now2 dir fs"
proof -
  let ?path = "\<lparr>pa_dir = dir, pa_file = ''budget.json''\<rparr>"
  let ?limits = "[''alice'' \<mapsto> budget_unlimited\<lparr>bl_max_total := Some 1000\<rparr>]"
  have ledger: "budget_record ''alice'' (test_usage 100 200 300) (ledger_new from_json ?limits 3600 (Some ?path) now1 fs)
      = alice_ledger now1 dir"
    using assms(1)
    by (simp add: alice_ledger_def ledger_new_def budget_record_def counters_for_def store_counters_def
        add_usage_def fresh_counters_def test_usage_def Let_def)
  have "period_start_secs now1 3600 = period_start_secs now2 3600"
    using assms(4) by (simp add: period_start_secs_def Let_def max_def word_le_nat_alt)
  then have "usage_for (ledger_new from_json ?limits 3600 (Some ?path) now2
      (snd (budget_flush to_json WriteOk None (alice_ledger now1 dir) fs))) ''alice'' = Some (100, 200, 300)"
    using flush_ok_file[of "alice_ledger now1 dir" ?path to_json json fs] assms(2,3)
    by (simp add: alice_ledger_def ledger_new_def usage_for_def Let_def ledger_to_snapshot_def counters_snapshot_def
        counters_restore_def)
  moreover have "fst (budget_flush to_json WriteOk None (alice_ledger now1 dir) fs) = Inr ()"
    using assms(2) by (simp add: budget_flush_def alice_ledger_def Let_def fs_rename_def)
  ultimately show ?thesis
    by (simp add: flush_and_restore_def ledger Let_def split_beta split: sum.split)
qed

section \<open>Rate limits\<close>

definition store_with :: "(u32 \<Rightarrow> 'g) \<Rightarrow> string \<Rightarrow> rate_limit \<Rightarrow> 'g rate_store" where
  "store_with keyed key limit = rate_store_new keyed [key \<mapsto> limit]"

text \<open>A test is a sequence of calls; \<open>t\<close> and \<open>now\<close> are the governor's clock and the wall clock at each.\<close>

definition unconfigured_key_has_no_limits ::
  "('t \<Rightarrow> string \<Rightarrow> 'g \<Rightarrow> bool \<times> 'g) \<Rightarrow> (u32 \<Rightarrow> 'g) \<Rightarrow> 't \<Rightarrow> u64 \<Rightarrow> bool" where
  "unconfigured_key_has_no_limits check_key keyed t now =
     (let (r, s1) = check_rpm check_key t ''any'' (rate_store_new keyed Map.empty)
      in r = Inr () \<and> fst (record_tpm now ''any'' 999999 s1) = Inr 999999)"

definition rpm_allows_up_to_limit ::
  "('t \<Rightarrow> string \<Rightarrow> 'g \<Rightarrow> bool \<times> 'g) \<Rightarrow> (u32 \<Rightarrow> 'g) \<Rightarrow> 't \<Rightarrow> bool" where
  "rpm_allows_up_to_limit check_key keyed t =
     (fst (check_rpm check_key t ''k'' (store_with keyed ''k'' \<lparr>rl_max_rpm = Some 120, rl_max_tpm = None\<rparr>)) = Inr ())"

definition tpm_allows_under_limit :: "(u32 \<Rightarrow> 'g) \<Rightarrow> u64 \<Rightarrow> u64 \<Rightarrow> bool" where
  "tpm_allows_under_limit keyed now1 now2 =
     (let store = store_with keyed ''k'' \<lparr>rl_max_rpm = None, rl_max_tpm = Some 1000\<rparr>;
          (r1, s1) = record_tpm now1 ''k'' 500 store; (r2, s2) = record_tpm now2 ''k'' 499 s1
      in r1 = Inr 500 \<and> r2 = Inr 999)"

definition tpm_rejects_when_exceeded :: "(u32 \<Rightarrow> 'g) \<Rightarrow> u64 \<Rightarrow> u64 \<Rightarrow> bool" where
  "tpm_rejects_when_exceeded keyed now1 now2 =
     (let store = store_with keyed ''k'' \<lparr>rl_max_rpm = None, rl_max_tpm = Some 100\<rparr>;
          (r1, s1) = record_tpm now1 ''k'' 100 store
      in \<not> isl r1 \<and> (case fst (record_tpm now2 ''k'' 1 s1) of Inl (Tpm _ _) \<Rightarrow> True | _ \<Rightarrow> False))"

definition retry_after_is_positive :: bool where
  "retry_after_is_positive \<longleftrightarrow> retry_after_secs 60 > 0 \<and> retry_after_secs 1 > 0 \<and> retry_after_secs 0 = 60"

definition current_tpm_tracks_within_window :: "(u32 \<Rightarrow> 'g) \<Rightarrow> u64 \<Rightarrow> u64 \<Rightarrow> u64 \<Rightarrow> bool" where
  "current_tpm_tracks_within_window keyed now1 now2 now3 =
     (let (r1, s1) = record_tpm now1 ''k'' 50 (rate_store_new keyed Map.empty);
          (r2, s2) = record_tpm now2 ''k'' 30 s1
      in \<not> isl r1 \<and> \<not> isl r2 \<and> fst (current_tpm now3 ''k'' s2) = 80)"

definition rpm_rejects_after_burst_exhausted ::
  "('t \<Rightarrow> string \<Rightarrow> 'g \<Rightarrow> bool \<times> 'g) \<Rightarrow> (u32 \<Rightarrow> 'g) \<Rightarrow> 't \<Rightarrow> 't \<Rightarrow> bool" where
  "rpm_rejects_after_burst_exhausted check_key keyed t1 t2 =
     (let store = store_with keyed ''k'' \<lparr>rl_max_rpm = Some 1, rl_max_tpm = None\<rparr>;
          (r1, s1) = check_rpm check_key t1 ''k'' store
      in r1 = Inr () \<and> fst (check_rpm check_key t2 ''k'' s1) = Inl (Rpm 1))"

definition rpm_keys_are_independent ::
  "('t \<Rightarrow> string \<Rightarrow> 'g \<Rightarrow> bool \<times> 'g) \<Rightarrow> (u32 \<Rightarrow> 'g) \<Rightarrow> 't \<Rightarrow> 't \<Rightarrow> 't \<Rightarrow> bool" where
  "rpm_keys_are_independent check_key keyed t1 t2 t3 =
     (let store = rate_store_new keyed
            [''low'' \<mapsto> \<lparr>rl_max_rpm = Some 1, rl_max_tpm = None\<rparr>, ''high'' \<mapsto> \<lparr>rl_max_rpm = Some 120, rl_max_tpm = None\<rparr>];
          (r1, s1) = check_rpm check_key t1 ''low'' store;
          (r2, s2) = check_rpm check_key t2 ''low'' s1
      in r1 = Inr () \<and> (case r2 of Inl (Rpm _) \<Rightarrow> True | _ \<Rightarrow> False) \<and>
         fst (check_rpm check_key t3 ''high'' s2) = Inr ())"

text \<open>
  What the tests rely on: a fresh limiter of the governor admits a key's first request, and one with a
  quota of one per minute rejects a second request at once.
\<close>

definition governor_quota :: "('t \<Rightarrow> string \<Rightarrow> 'g \<Rightarrow> bool \<times> 'g) \<Rightarrow> (u32 \<Rightarrow> 'g) \<Rightarrow> 't \<Rightarrow> 't \<Rightarrow> bool" where
  "governor_quota check_key keyed t1 t2 \<longleftrightarrow>
     list_all (\<lambda>(n, k, t). fst (check_key t k (keyed n)))
       [(120, ''k'', t1), (1, ''k'', t1), (1, ''low'', t1), (120, ''high'', t1), (120, ''high'', t2)] \<and>
     list_all (\<lambda>k. \<not> fst (check_key t2 k (snd (check_key t1 k (keyed 1))))) [''k'', ''low'']"

lemma rpm_tests_pass:
  assumes "governor_quota check_key keyed t1 t2"
  shows "rpm_allows_up_to_limit check_key keyed t1" "rpm_rejects_after_burst_exhausted check_key keyed t1 t2"
    "rpm_keys_are_independent check_key keyed t1 t2 t2"
  using assms
  by (auto simp: governor_quota_def rpm_allows_up_to_limit_def rpm_rejects_after_burst_exhausted_def
      rpm_keys_are_independent_def store_with_def check_rpm_def rate_store_new_def rate_limit_for_def Let_def
      split_beta)

text \<open>The token tests need their calls to fall into one window, after the first minute of the epoch.\<close>

definition same_window :: "u64 \<Rightarrow> u64 \<Rightarrow> bool" where
  "same_window now1 now2 \<longleftrightarrow> 60 \<le> unat now1 \<and> unat now1 \<le> unat now2 \<and> unat now2 < unat now1 + 60"

lemma window_facts:
  assumes "same_window now1 now2"
  shows "60 \<le> saturating_sub now1 0" "\<not> 60 \<le> saturating_sub now2 now1"
proof -
  show "60 \<le> saturating_sub now1 0"
    using assms by (simp add: same_window_def saturating_sub_def word_le_nat_alt)
  have "now1 \<le> now2" using assms by (simp add: same_window_def word_le_nat_alt)
  then have "unat (now2 - now1) = unat now2 - unat now1" by (rule unat_sub)
  then show "\<not> 60 \<le> saturating_sub now2 now1"
    using assms \<open>now1 \<le> now2\<close> by (auto simp: same_window_def saturating_sub_def word_le_nat_alt)
qed

lemma tpm_tests_pass:
  assumes "same_window now1 now2" "same_window now1 now3"
  shows "unconfigured_key_has_no_limits check_key keyed t now1" "tpm_allows_under_limit keyed now1 now2"
    "tpm_rejects_when_exceeded keyed now1 now2" "current_tpm_tracks_within_window keyed now1 now2 now3"
  using window_facts[OF assms(1)] window_facts[OF assms(2)]
  by (simp_all add: unconfigured_key_has_no_limits_def tpm_allows_under_limit_def tpm_rejects_when_exceeded_def
      current_tpm_tracks_within_window_def store_with_def check_rpm_def rate_store_new_def record_tpm_def
      rate_limit_for_def rate_unlimited_def tpm_counter_for_def store_tpm_def current_tpm_def tpm_current_def
      tpm_add_def fresh_tpm_def Let_def)

lemma retry_test_passes: "retry_after_is_positive"
  by (simp add: retry_after_is_positive_def retry_after_secs_def div_ceil_def Let_def)

section \<open>Metrics\<close>

text \<open>\<open>str::contains\<close>.\<close>

definition str_contains :: "string \<Rightarrow> string \<Rightarrow> bool" where
  "str_contains out needle = sublist needle out"

definition render_is_empty_before_any_records :: bool where
  "render_is_empty_before_any_records = (render metrics_new = [])"

definition request_counter_appears_in_output :: bool where
  "request_counter_appears_in_output =
     (let h = record_request ''openai'' ''gpt-4o'' ''5xx'' (record_request ''local-llm'' ''qwen-coder'' ''2xx''
            (record_request ''local-llm'' ''qwen-coder'' ''2xx'' metrics_new));
          out = render h
      in str_contains out ''patchbay_requests_total'' \<and>
         str_contains out ''backend=\"local-llm\"'' \<and>
         str_contains out ''model=\"qwen-coder\"'' \<and>
         str_contains out ''status=\"2xx\"} 2'' \<and>
         str_contains out ''status=\"5xx\"} 1'')"

definition token_counters_accumulate :: bool where
  "token_counters_accumulate =
     (let u = \<lparr>us_prompt = 10, us_completion = 20, us_total = 30\<rparr>;
          out = render (record_tokens ''dev'' u (record_tokens ''dev'' u metrics_new))
      in str_contains out ''kind=\"prompt\"} 20'' \<and>
         str_contains out ''kind=\"completion\"} 40'' \<and>
         str_contains out ''kind=\"total\"} 60'')"

definition upstream_error_counter :: bool where
  "upstream_error_counter =
     (let out = render (record_upstream_error ''openai'' (record_upstream_error ''openai'' metrics_new))
      in str_contains out ''patchbay_upstream_errors_total'' \<and>
         str_contains out ''backend=\"openai\"} 2'')"

definition rate_limit_and_budget_rejection_counters :: bool where
  "rate_limit_and_budget_rejection_counters =
     (let out = render (record_budget_rejection ''bob'' (record_rate_limit_rejection ''alice'' metrics_new))
      in str_contains out ''patchbay_rate_limit_rejections_total'' \<and>
         str_contains out ''key=\"alice\"} 1'' \<and>
         str_contains out ''patchbay_budget_rejections_total'' \<and>
         str_contains out ''key=\"bob\"} 1'')"

definition label_values_are_escaped :: bool where
  "label_values_are_escaped =
     (let out = render (record_request ''back\"end'' (''model'' @ [newline] @ ''name'') ''2xx'' metrics_new)
      in str_contains out (''back'' @ [backslash] @ ''\"end'') \<or>
         str_contains out (''back'' @ [backslash, backslash] @ ''\"end''))"

definition help_and_type_lines_appear :: bool where
  "help_and_type_lines_appear =
     (let out = render (record_request ''b'' ''m'' ''2xx'' metrics_new)
      in str_contains out ''# HELP patchbay_requests_total'' \<and>
         str_contains out ''# TYPE patchbay_requests_total counter'')"

lemma metrics_tests_pass:
  "render_is_empty_before_any_records" "request_counter_appears_in_output" "token_counters_accumulate"
  "upstream_error_counter" "rate_limit_and_budget_rejection_counters" "label_values_are_escaped"
  "help_and_type_lines_appear"
  by code_simp+

end
