(* ===== verification/Spec2Isabelle.thy ===== *)
theory Spec2Isabelle
  imports Config F64 Routing Typed_Routing Scanner Event_Stream Budget Rate_Limits Metrics Http Auth Relay Client
    Server Requests Gateway Interleaving Startup Concurrency Locked_Ledger
    Router_Tests Config_Tests Scanner_Tests Unit_Tests
begin

text \<open>
  Patchbay is a gateway in front of several OpenAI-compatible backends.  A client presents a virtual
  key; the gateway checks the key's request rate, picks a backend for the requested model (a
  backend outside the operator's control never sees the traffic of a key marked private), forwards
  the client's bytes with retries, relays the answer byte for byte, and books the tokens that the
  answer reports on the key.  This development models the crate under \<open>src/\<close> (Rust) part by part
  and proves what the parts and their composition promise.

  Parts, in the order in which they call each other:

  \<^item> Theory \<open>Prelude\<close>: machine integers, results (\<open>Inl\<close> is an error), the string routines of the
    standard library, decimal printing, and the contracts \<open>lazy_table\<close> and \<open>accumulating_table\<close> of
    the tables that are filled on demand.  They are interpreted on the budget ledger, on the
    token windows and on the labelled counters.  The contract \<open>progressing\<close> (systems that run down) is
    interpreted on overlapping ledger calls, without and with their lock, and on requests in flight.
  \<^item> Theory \<open>F64\<close>: binary64 arithmetic (round to nearest even on exact rationals), as far as the
    latency average of \<open>router.rs\<close> needs it, and its monotonicity and error bounds.
  \<^item> Theory \<open>Config\<close> (\<open>config.rs\<close>): the raw TOML structures, \<open>load\<close> and \<open>from_toml_str\<close> with all
    their error branches in the order of the code.  Loading is proved equivalent to a declarative
    validity predicate; what is loaded is well formed.
  \<^item> Theory \<open>Routing\<close> (\<open>router.rs\<close>): \<open>classify\<close>, \<open>gather\<close>, \<open>select\<close>, the two policies, the EWMA
    statistics, \<open>route\<close>.  The marker types become values; a policy object may be any function.
    The contracts \<open>honest_policy\<close> and \<open>ranking_policy\<close> are interpreted on both policies.
  \<^item> Theory \<open>Typed_Routing\<close> (\<open>router.rs\<close>): \<open>Candidates\<close> and \<open>Selection\<close> as structures, and which of their
    values code outside the module can obtain (private fields: only through \<open>gather\<close> and \<open>select\<close>).
  \<^item> Theory \<open>Scanner\<close> (\<open>upstream.rs\<close>, \<open>UsageScanner\<close>): the incremental event parser, with the proof
    that chunk boundaries do not matter (contract \<open>event_splitter\<close>).
  \<^item> Theory \<open>Event_Stream\<close>: a line-based specification of server-sent events and the proof that
    the scanner refines it.
  \<^item> Theory \<open>Relay\<close> (\<open>upstream.rs\<close>, \<open>SseRelay\<close>): the stream state machine (poll, report, drop) against
    a specification of a stream's life.
  \<^item> Theory \<open>Client\<close> (\<open>upstream.rs\<close>, \<open>UpstreamClient\<close>, \<open>UpstreamError\<close>): requests, retryable errors.
  \<^item> Theory \<open>Budget\<close> (\<open>budget.rs\<close>): counters, check, record, periods, snapshot file.
  \<^item> Theory \<open>Rate_Limits\<close> (\<open>limits.rs\<close>): per-key governors and token windows.
  \<^item> Theory \<open>Metrics\<close> (\<open>metrics.rs\<close>): labelled counters, escaping, the text page, and a parser of the
    text format that specifies it.
  \<^item> Theories \<open>Http\<close> and \<open>Auth\<close> (\<open>auth.rs\<close>): responses, the key store and the header extractor.
  \<^item> Theory \<open>Server\<close> (\<open>server.rs\<close>): the state, the calls on it (\<open>shared_op\<close>, \<open>perform\<close>), back-off, the retry
    loop, all handlers, and the calls of the accounting task; a handler gives the list of the calls it makes.
    \<open>chat_completions\<close> here is the handler when nothing else runs meanwhile.
  \<^item> Theory \<open>Requests\<close>: \<open>chat_completions\<close> cut at its await points (timer, upstream answer, error text,
    body): the task of a request, the event each task waits for, and its turns.  A request waits at most
    seventeen times; without interference, and when every answer comes, it is the handler of \<open>Server\<close>.
  \<^item> Theory \<open>Gateway\<close>: what happens to a streamed response after its handler has returned: polls,
    disconnect, the summary reaching the accounting task, and each of the task's calls.
  \<^item> Theory \<open>Interleaving\<close>: the gateway as the multi-threaded runtime executes it: events and single calls of
    all requests and streams in any order, requests abandoned at an await, as a labelled step relation with
    the network traffic of each identity and what each client received; the invariants of the ledger, of
    the metrics, of what is still due, of the streams and of the requests in flight.  The scheduling
    (\<open>async_step\<close>) is the runtime's and has no counterpart in the source; its pieces have.
  \<^item> Theory \<open>Startup\<close> (\<open>main.rs\<close>): from \<open>load\<close> to the bound listener with every error and every logged line.
  \<^item> Theory \<open>Concurrency\<close>: \<open>BudgetLedger::record\<close> and \<open>TpmCounter::add\<close> as threads of single steps on
    shared memory, with a contract (\<open>conserving_threads\<close>) for quantities that every step conserves.
  \<^item> Theory \<open>Locked_Ledger\<close>: \<open>record\<close> with the acquisitions and releases of its read-write lock: mutual
    exclusion, no deadlock, and refinement to the calls of \<open>Concurrency\<close>.
  \<^item> Theories \<open>Router_Tests\<close>, \<open>Config_Tests\<close>, \<open>Scanner_Tests\<close> and \<open>Unit_Tests\<close>: the test modules of the crate
    over the model.  The property tests are proved for every input; the unit tests are lemmas, for the
    readings of their texts by the parsers.
  \<^item> This theory: the properties that span the parts, from the configuration file to the network
    and to the metrics page.

  State.  A shared \<open>Arc\<close> of atomics or of a locked map is a record that the operations take and
  return; every operation of the crate on such a state is one definition.  The steps of \<open>Interleaving\<close> are
  single calls of such operations (\<open>record\<close>, \<open>record_tokens\<close>, \<open>record_tpm\<close>, the counters of the metrics, the rate
  check); between two calls of one request anything else may run, so that the ledger and the metrics agree
  only up to what is due (\<open>metrics_page_agrees_with_ledger\<close>).  Below that level, \<open>Concurrency\<close> and \<open>Locked_Ledger\<close>
  take \<open>record\<close> and \<open>add\<close> apart into their lock operations, table accesses and
  atomic instructions; overlapping \<open>record\<close>s are proved to amount to records one after another,
  overlapping token-window additions likewise inside a window, while two resets at
  the end of a window can lose tokens (\<open>window_reset_race\<close>).  The three counters that \<open>record_tokens\<close> adds to, and
  the page that \<open>render\<close> reads, are one step each.  Counters are 64-bit words and wrap as \<open>fetch_add\<close> does; the
  sums of \<open>would_exceed\<close> wrap as in the release profile.  A hash map is a partial map, or an
  association list where its emptiness or iteration order matters; what is proved holds for every
  order.

  Outside the repository, and therefore arguments of the definitions: the TOML and JSON libraries (with the
  deserializers that serde derives from the attributes of the raw structures), the parsing of socket addresses, the
  governor's limiter (\<open>check_key\<close>), header decoding, the status code tests, the transport, the sleep timer, clocks,
  and the hash behind the jitter.  In \<open>Interleaving\<close> the transport, the timers and the clients are events, which
  may come at any time or never.  Hypotheses about them appear in a few theorems only: the JSON library reads back what
  it printed (\<open>restart_keeps_usage\<close>), the HTTP library accepts the status it produced (of a client error that is
  passed through), and a hash set iterates over each of its elements once (for the model list).  The stall
  theorem is about the timer that fires at its deadline.

  Loops.  All definitions are total: the scanner's loops and the text parser terminate by measures on
  the remaining bytes, the retry loop recurses over its list of attempts, the rest is structural.  A request
  ends only if its events happen: nothing limits the time of an upstream.  The
  seventeen of \<open>run_chat\<close> in \<open>turns_equal_handler\<close> is enough for every request: five attempts with an answer, its
  text and a pause, and a last one with an answer and a body.

  Not modelled: logging (but for the lines of \<open>main\<close>), the \<open>Debug\<close> implementations (but that of secrets), the
  set-up of the log filter, what follows the bound listener in \<open>main\<close> (\<open>axum::serve\<close> and its graceful shutdown on
  the signal), the module list \<open>lib.rs\<close>, the HTTP libraries' own work (method and path matching, serialisation of
  JSON bodies, chunked transfer), the integration tests under \<open>tests/\<close> and the benchmark.
\<close>

section \<open>The history of the token metrics\<close>

text \<open>The whole history of the token metrics, as a history of metrics events.\<close>

lemma record_all_tokens_events:
  "record_all_tokens cs metrics_new = metrics_after (map (\<lambda>(k, u). TokensUsed k u) cs)"
proof (induction cs rule: rev_induct)
  case (snoc c cs)
  then show ?case by (cases c) (simp add: record_all_tokens_def)
qed (simp add: record_all_tokens_def)

lemma token_usages_events:
  "token_usages key (map (\<lambda>(k, u). TokensUsed k u) cs) = map snd (filter (\<lambda>(k, u). k = key) cs)"
  by (induction cs) (auto simp: token_usages_def)

lemma charged_usages:
  "charged amount key cs = (\<Sum>u \<leftarrow> map snd (filter (\<lambda>(k, u). k = key) cs). unat (amount u))"
  by (induction cs) (auto simp: charged_def)

text \<open>C2: conservation of tokens. In every reachable state of the gateway, whatever the interleaving of
  requests, polls, disconnects and the single calls of the handlers and accounting tasks, the prompt,
  completion and total tokens of each key in the ledger are the sums of those of the usages recorded under that
  key (modulo \<open>2 ^ 64\<close>), and the usages recorded for streams are exactly the summaries of the settled streams,
  each once.\<close>
theorem tokens_conserved:
  assumes "starts cfg st" and "async_run en (fresh_gateway st) ls evs g"
  shows "used_tokens (ap_budget (app_of g)) key =
      (of_nat (charged us_prompt key (all_charges ls)), of_nat (charged us_completion key (all_charges ls)),
       of_nat (charged us_total key (all_charges ls)))
    \<and> mset (concat (map stream_charges ls)) = mset (concat (map settled (streams_of g)))"
proof -
  have "ap_budget (app_of g) = budget_records (all_charges ls) (ap_budget st)"
    using async_accounts[OF assms(2)] by (simp add: accounts_def)
  then show ?thesis
    using starts_state(6)[OF assms(1)] async_settled[OF assms(2)] by (simp add: used_after_records)
qed

text \<open>Nothing is half booked for a key: no call that records a usage of the key is still to be made.\<close>

definition at_rest :: "string \<Rightarrow> 'g async_gateway \<Rightarrow> bool" where
  "at_rest key g \<longleftrightarrow> key \<notin> fst ` set (ops_charges (due_ops g)) \<and> key \<notin> fst ` set (ops_shown (due_ops g))"

lemma filter_at_rest: "key \<notin> fst ` set xs \<Longrightarrow> filter (\<lambda>(k, u). k = key) xs = []"
  by (force simp: filter_empty_conv)

lemma shown_at_rest:
  assumes "async_run en (fresh_gateway st) ls evs g" and "at_rest key g"
  shows "mset (filter (\<lambda>(k, u). k = key) (all_shown ls)) = mset (filter (\<lambda>(k, u). k = key) (all_charges ls))"
proof -
  have "filter_mset (\<lambda>(k, u). k = key) (mset (all_charges ls) + mset (ops_charges (due_ops g))) =
      filter_mset (\<lambda>(k, u). k = key) (mset (all_shown ls) + mset (ops_shown (due_ops g)))"
    by (simp only: charges_and_shown[OF assms(1)])
  then show ?thesis
    using assms(2) unfolding filter_union_mset mset_filter[symmetric] at_rest_def by (simp add: filter_at_rest)
qed

lemma charged_mset:
  assumes "mset (filter (\<lambda>(k, u). k = key) xs) = mset (filter (\<lambda>(k, u). k = key) ys)"
  shows "charged amount key xs = charged amount key ys"
proof -
  have "mset (map (\<lambda>u. unat (amount u)) (map snd (filter (\<lambda>(k, u). k = key) xs))) =
      mset (map (\<lambda>u. unat (amount u)) (map snd (filter (\<lambda>(k, u). k = key) ys)))"
    using assms by (simp only: mset_map)
  then show ?thesis unfolding charged_usages by (metis sum_mset_sum_list)
qed

text \<open>In every reachable state, the page shows the usages whose call on the metrics has been made.\<close>

lemma page_shows:
  assumes "starts cfg st" and "async_run en (fresh_gateway st) ls evs g"
  shows "Some (''patchbay_tokens_total'', [(''key'', key), (''kind'', ''total'')], n)
      \<in> set (read_exposition (render (ap_metrics (app_of g))))
    \<longleftrightarrow> key \<in> fst ` set (all_shown ls) \<and> n = unat (of_nat (charged us_total key (all_shown ls)) :: u64)"
proof -
  let ?cs = "all_shown ls" and ?m = "ap_metrics (app_of g)"
  have ac: "accounts (all_charges ls) ?cs st (app_of g)" using async_accounts[OF assms(2)] by simp
  then have wf: "wf_metrics ?m" using starts_state(3)[OF assms(1)] wf_metrics_new by (simp add: accounts_def)
  have tok: "me_tokens ?m = me_tokens (metrics_after (map (\<lambda>(k, u). TokensUsed k u) ?cs))"
    using ac starts_state(3)[OF assms(1)] by (simp add: accounts_def record_all_tokens_events)
  have "map_of (me_tokens ?m) (format_labels [(''key'', key), (''kind'', ''total'')]) =
      (if filter (\<lambda>(k, u). k = key) ?cs = [] then None else Some (of_nat (charged us_total key ?cs)))"
    using tokens_after[of "''total''" "map (\<lambda>(k, u). TokensUsed k u) ?cs" key]
    by (simp add: tok token_label_is_set usage_kinds_plain token_kinds_def token_usages_events charged_usages
        usage_dimension_def)
  moreover have "filter (\<lambda>(k, u). k = key) ?cs = [] \<longleftrightarrow> key \<notin> fst ` set ?cs"
    by (force simp: filter_empty_conv)
  ultimately show ?thesis
    using exposition_family(2)[OF wf, of "[(''key'', key), (''kind'', ''total'')]" n] by (auto simp: label_sets)
qed

text \<open>C8: the metrics page tells the truth about the ledger. The page served at \<open>/metrics\<close>, read by the rules
  of the text format, shows a total-token sample of a key exactly when usage was recorded for that key, and
  the sample is the key's total in the ledger, in every reachable state in which no usage of that key is half
  booked (recorded in the ledger but not yet in the metrics, or due in either); in every reachable state
  whatever, the ledger and the page differ by what is due only: the usages recorded in the ledger and those due
  there are, each once, those shown on the page and those due there.\<close>
theorem metrics_page_agrees_with_ledger:
  assumes "starts cfg st" and "async_run en (fresh_gateway st) ls evs g"
  shows "(at_rest key g \<longrightarrow>
      (Some (''patchbay_tokens_total'', [(''key'', key), (''kind'', ''total'')], n)
         \<in> set (read_exposition (render (ap_metrics (app_of g))))
       \<longleftrightarrow> key \<in> fst ` set (all_charges ls) \<and> n = unat (total_used (ap_budget (app_of g)) key)))
    \<and> (Some (''patchbay_tokens_total'', [(''key'', key), (''kind'', ''total'')], n)
         \<in> set (read_exposition (render (ap_metrics (app_of g))))
       \<longleftrightarrow> key \<in> fst ` set (all_shown ls) \<and> n = unat (of_nat (charged us_total key (all_shown ls)) :: u64))
    \<and> total_used (ap_budget (app_of g)) key = of_nat (charged us_total key (all_charges ls))
    \<and> mset (all_charges ls) + mset (ops_charges (due_ops g)) = mset (all_shown ls) + mset (ops_shown (due_ops g))"
proof -
  have total: "total_used (ap_budget (app_of g)) key = of_nat (charged us_total key (all_charges ls))"
    using async_accounts[OF assms(2)] starts_state(6)[OF assms(1), of key]
    by (simp add: accounts_def total_used_def used_after_records)
  have rest: "charged us_total key (all_shown ls) = charged us_total key (all_charges ls)
      \<and> (key \<in> fst ` set (all_shown ls) \<longleftrightarrow> key \<in> fst ` set (all_charges ls))" if "at_rest key g"
  proof -
    note m = shown_at_rest[OF assms(2) that]
    have "key \<in> fst ` set xs \<longleftrightarrow> filter (\<lambda>(k, u). k = key) xs \<noteq> []" for xs :: "(string \<times> usage) list"
      by (force simp: filter_empty_conv)
    then show ?thesis using charged_mset[OF m] arg_cong[OF m, of size] by (metis length_0_conv size_mset)
  qed
  show ?thesis using page_shows[OF assms, of key n] total charges_and_shown[OF assms(2)] rest by simp
qed

section \<open>A sample run\<close>

definition sample_environment :: "nat environment" where
  "sample_environment = \<lparr>en_externals = sample_externals, en_to_str = Some, en_hash_order = (\<lambda>_. []),
     en_parse_env = (\<lambda>_. None), en_timer = (\<le>)\<rparr>"

lemma sample_starts: "starts (resolved_config sample_env sample_raw ()) sample_state"
  unfolding starts_def
  by (rule exI[of _ "Inr ()"], rule exI[of _ unat], rule exI[of _ "\<lambda>_. None"], rule exI[of _ 7000],
      rule exI[of _ Map.empty])
    (simp add: app_state_from_config_def router_from_config_def sample_state_def sample_backends_def
      resolved_config_def sample_raw_def)

definition sample_usage :: usage where
  "sample_usage = \<lparr>us_prompt = 3, us_completion = 4, us_total = 7\<rparr>"

lemma sample_identity:
  "from_request_parts Some (ap_keys sample_state) (Some ''Bearer secret-b'') =
     Inr \<lparr>ki_name = ''b'', ki_enforce_private = False\<rparr>"
  by (simp add: from_request_parts_def sample_state_def is_open_def authenticate_def from_virtual_keys_def
      resolved_config_def resolved_virtual_key_def sample_defs identity_of_def)

text \<open>A buffered request, from its arrival to its reply, that nothing else interrupts.\<close>

definition plain_caller :: key_identity where
  "plain_caller = \<lparr>ki_name = ''b'', ki_enforce_private = False\<rparr>"

lemma sample_chat:
  "\<exists>rsp st' tr. chat_completions sample_externals sample_world plain_caller ''{}'' sample_state = (rsp, st', tr)
     \<and> opened rsp = [] \<and> ap_budget st' = budget_record ''b'' sample_usage (ap_budget sample_state)"
proof -
  let ?b = "hd sample_backends"
  let ?resp = "\<lparr>hr_status = 200, hr_content_type = None, hr_text = None, hr_bytes = Inr ''{usage}''\<rparr>"
  have out: "try_attempt sample_externals sample_world ?b ''{}'' i = (if i < 2 then Inl (Http ''connection refused'')
      else Inr ?resp)" for i
    by (simp add: try_attempt_def open_sse_def sample_world_def sample_externals_def)
  obtain m tr where loop: "forward_loop sample_externals sample_world ?b ''{}'' attempt_numbers None (ap_metrics sample_state) =
      (GotResponse ?resp, m, tr)"
    by (simp add: forward_loop_eq loop_result_def attempts_list out decisive_def is_retryable_def)
  have usage: "body_usage sample_externals ''{usage}'' = Some sample_usage"
    by (simp add: body_usage_def sample_externals_def sample_usage_def)
  have model: "cr_model (client_request sample_externals ''{}'') \<noteq> []" "\<not> cr_stream (client_request sample_externals ''{}'')"
    by (simp_all add: sample_admitted(2))
  show ?thesis
    unfolding plain_caller_def chat_forwarded[OF sample_admitted(1) model(1) sample_admitted(3)] loop
    using model(2) usage
    by (simp add: respond_def buffered_response_def account_ops_def opened_def Let_def)
qed

lemma sample_arrives:
  "chat_of sample_environment (ap_keys sample_state) (PostChatCompletions (Some ''Bearer secret-b'') ''{}'') =
     Some (plain_caller, ''{}'')"
  using sample_identity by (simp add: chat_of_def sample_environment_def plain_caller_def)

lemma sample_run:
  "\<exists>ls evs g. async_run sample_environment (fresh_gateway sample_state) ls evs g
     \<and> used_tokens (ap_budget (app_of g)) ''b'' = (3, 4, 7) \<and> as_tasks g = [] \<and> streams_of g = []"
proof -
  obtain rsp st' tr where c: "chat_completions sample_externals sample_world plain_caller ''{}'' sample_state = (rsp, st', tr)"
    "opened rsp = []" "ap_budget st' = budget_record ''b'' sample_usage (ap_budget sample_state)"
    using sample_chat by blast
  have "used_tokens (ap_budget st') ''b'' = (3, 4, 7)"
    using used_after_records[of "[(''b'', sample_usage)]" "ap_budget sample_state" "''b''"] starts_state(6)[OF sample_starts, of "''b''"]
    by (simp add: c(3) budget_records_def charged_def sample_usage_def)
  moreover obtain ls evs where "async_run sample_environment \<lparr>as_gateway = \<lparr>gw_app = sample_state, gw_streams = []\<rparr>, as_tasks = []\<rparr>
      ls evs \<lparr>as_gateway = \<lparr>gw_app = st', gw_streams = [] @ opened rsp\<rparr>, as_tasks = []\<rparr>"
    using chat_alone[OF sample_arrives, of sample_world rsp st' tr "[]" "[]"] c(1)
    by (auto simp: sample_environment_def)
  ultimately show ?thesis
    using c(2) by (intro exI[of _ ls] exI[of _ evs] exI conjI) (auto simp: fresh_gateway_def booted_def)
qed

lemma tokens_conserved_witness:
  "\<exists>ls evs g. async_run sample_environment (fresh_gateway sample_state) ls evs g
     \<and> used_tokens (ap_budget (app_of g)) ''b'' = (3, 4, 7)
     \<and> (of_nat (charged us_total ''b'' (all_charges ls)) :: u64) = 7"
proof -
  obtain ls evs g where g: "async_run sample_environment (fresh_gateway sample_state) ls evs g"
    "used_tokens (ap_budget (app_of g)) ''b'' = (3, 4, 7)"
    using sample_run by blast
  from tokens_conserved[OF sample_starts g(1), of "''b''"] g show ?thesis
    by (intro exI[of _ ls] exI[of _ evs] exI[of _ g]) simp
qed

lemma metrics_page_agrees_with_ledger_witness:
  "\<exists>ls evs g. async_run sample_environment (fresh_gateway sample_state) ls evs g \<and> at_rest ''b'' g
     \<and> Some (''patchbay_tokens_total'', [(''key'', ''b''), (''kind'', ''total'')], 7)
          \<in> set (read_exposition (render (ap_metrics (app_of g))))"
proof -
  obtain ls evs g where g: "async_run sample_environment (fresh_gateway sample_state) ls evs g"
    "used_tokens (ap_budget (app_of g)) ''b'' = (3, 4, 7)" "as_tasks g = []" "streams_of g = []"
    using sample_run by blast
  have rest: "at_rest ''b'' g" by (simp add: at_rest_def due_ops_def g(3,4))
  have "(of_nat (charged us_total ''b'' (all_charges ls)) :: u64) = 7"
    using async_accounts[OF g(1)] g(2) starts_state(6)[OF sample_starts, of "''b''"]
    by (simp add: accounts_def used_after_records)
  then have "charged us_total ''b'' (all_charges ls) \<noteq> 0" by (intro notI) simp
  then have "''b'' \<in> fst ` set (all_charges ls)"
    by (induction "all_charges ls") (auto simp: charged_def filter_empty_conv, force)
  with metrics_page_agrees_with_ledger[OF sample_starts g(1), of "''b''" 7] g rest show ?thesis
    by (intro exI[of _ ls] exI[of _ evs] exI[of _ g]) (simp add: total_used_def)
qed

section \<open>Limits, latencies and privacy of the running gateway\<close>

lemma run_frame:
  assumes "starts cfg st" and "async_run en (fresh_gateway st) ls evs g"
  shows "ap_router (app_of g) = ap_router st" "ap_keys (app_of g) = from_virtual_keys (cfg_virtual_keys cfg)"
    "rs_limits (ap_limits (app_of g)) = Map.empty" "lg_limits (ap_budget (app_of g)) = lg_limits (ap_budget st)"
proof -
  have ch: "accounts (all_charges ls) (all_shown ls) st (app_of g)" using async_accounts[OF assms(2)] by simp
  then show "ap_router (app_of g) = ap_router st" "ap_keys (app_of g) = from_virtual_keys (cfg_virtual_keys cfg)"
    "rs_limits (ap_limits (app_of g)) = Map.empty"
    using starts_state[OF assms(1)] by (simp_all add: accounts_def)
  have "lg_limits (budget_records cs lg) = lg_limits lg" for cs lg
    by (induction cs arbitrary: lg) (auto simp: budget_records_def)
  with ch show "lg_limits (ap_budget (app_of g)) = lg_limits (ap_budget st)" by (simp add: accounts_def)
qed

text \<open>C33: nothing is limited: the state built from a configuration has neither rate limits nor budgets, so
  in every reachable state every request passes the rate check and every key's budget is unlimited.\<close>
theorem configured_gateway_never_limits:
  assumes "starts cfg st" and "async_run en (fresh_gateway st) ls evs g"
  shows "admitted ex w identity (app_of g) = Inr ()
    \<and> budget_limit_for (ap_budget (app_of g)) key = budget_unlimited"
proof -
  have "lg_limits (ap_budget st) = Map.empty"
    using assms(1) by (auto simp: starts_def app_state_from_config_def result_simps ledger_new_def Let_def)
  then show ?thesis
    using run_frame[OF assms]
    by (simp add: admitted_def check_rpm_def rate_limit_for_def rate_unlimited_def budget_limit_for_def)
qed

lemma configured_gateway_never_limits_witness:
  "\<exists>ls evs g. async_run sample_environment (fresh_gateway sample_state) ls evs g
     \<and> admitted sample_externals sample_world \<lparr>ki_name = ''b'', ki_enforce_private = False\<rparr> (app_of g) = Inr ()"
  using sample_run configured_gateway_never_limits[OF sample_starts] by blast

lemma ewma_without_samples:
  assumes "ew_stats e = Map.empty"
  shows "select (filter P bs) (ewma_choose e) = find P bs"
proof (cases "select (filter P bs) (ewma_choose e)")
  case None
  then have "filter P bs = []" by (simp add: ewma_policy.select_None_iff)
  then show ?thesis using None by (simp add: filter_empty_conv find_None_iff2)
next
  case (Some b)
  obtain before after where split: "filter P bs = before @ b # after"
    "\<forall>c\<in>set before. ewma_score e b < ewma_score e c"
    using ewma_policy.select_split[OF Some] by metis
  then have "before = []" using assms by (cases before) (auto simp: ewma_score_def)
  then have "select (filter P bs) static_choose = Some b" using split(1) by (simp add: select_def static_choose_def)
  then show ?thesis using Some by (simp add: find_select_static)
qed

lemma configured_policy:
  assumes "router_from_config cfg = Some r"
  shows "ro_policy r = StaticPolicy \<or> (\<exists>e. ro_policy r = EwmaPolicy e \<and> ew_stats e = Map.empty)"
  using assms
  by (cases "cfg_policy cfg") (auto simp: router_from_config_def with_policy_def ewma_new_def split: if_splits)

lemma routes_first:
  assumes "starts cfg st" and "async_run en (fresh_gateway st) ls evs g"
  shows "route (ap_router (app_of g)) q mark_private =
    (case find (eligible q mark_private) (cfg_backends cfg) of
       Some b \<Rightarrow> Inr b
     | None \<Rightarrow> Inl (NoEligibleBackend (rq_model q) (rq_required_tags q)
                      (if mark_private then ''private'' else ''shareable'')))"
proof -
  let ?r = "ap_router st"
  have "select (filter (eligible q mark_private) (ro_backends ?r)) (policy_choose (ro_policy ?r)) =
      find (eligible q mark_private) (cfg_backends cfg)"
    using starts_state(4)[OF assms(1)] configured_policy[OF starts_state(5)[OF assms(1)]]
    by (auto simp: find_select_static ewma_without_samples)
  then show ?thesis using run_frame(1)[OF assms] by (simp add: route_eq split: option.split)
qed

text \<open>C34: latencies are never observed: whatever policy is configured, the running gateway routes every
  request to the first eligible backend of the configuration, EWMA included.\<close>
theorem configured_gateway_routes_first:
  assumes "starts cfg st" and "async_run en (fresh_gateway st) ls evs g"
  shows "route (ap_router (app_of g)) q mark_private =
    (case find (eligible q mark_private) (cfg_backends cfg) of
       Some b \<Rightarrow> Inr b
     | None \<Rightarrow> Inl (NoEligibleBackend (rq_model q) (rq_required_tags q)
                      (if mark_private then ''private'' else ''shareable'')))"
  using routes_first[OF assms] .

lemma configured_gateway_routes_first_witness:
  "\<exists>ls evs g. async_run sample_environment (fresh_gateway sample_state) ls evs g
     \<and> route (ap_router (app_of g)) (new_query ''q'') True = Inr (sample_backends ! 1)"
proof -
  obtain ls evs g where g: "async_run sample_environment (fresh_gateway sample_state) ls evs g"
    using sample_run by blast
  from configured_gateway_routes_first[OF sample_starts g, of "new_query ''q''" True] g show ?thesis
    by (intro exI[of _ ls] exI[of _ evs] exI[of _ g]) (simp add: sample_backends_def[symmetric] sample_backends_eq new_query_def eligible_def)
qed


text \<open>C1: the end-to-end privacy guarantee. Load a configuration, start the gateway, let anything happen
  in any interleaving. A request that presents the secret of a key marked \<open>enforce_private\<close> is
  identified as that key, and every upstream request ever sent on behalf of that key, retries
  included, went to a Local backend of the configuration.\<close>
theorem private_key_reaches_local_only:
  assumes "load toml_parse parse_addr env files = Inr cfg"
    and "starts cfg st" and "async_run en (fresh_gateway st) ls evs g"
    and "vk \<in> set (cfg_virtual_keys cfg)" and "vk_enforce_private vk"
  shows "(Option.bind authorization (en_to_str en) = Some (''Bearer '' @ expose (vk_key vk)) \<longrightarrow>
      from_request_parts (en_to_str en) (ap_keys (app_of g)) authorization = Inr (identity_of vk))
    \<and> (\<forall>b q. (identity_of vk, Sent b q) \<in> set evs \<longrightarrow> b \<in> set (cfg_backends cfg) \<and> be_privacy b = Local)"
proof
  have wf: "wf_config cfg" using assms(1) by (auto simp: load_Inr_iff wf_resolved_config)
  have d: "distinct (map (expose \<circ> vk_key) (cfg_virtual_keys cfg))" using wf by (simp add: wf_config_def)
  have ne: "cfg_virtual_keys cfg \<noteq> []" using assms(4) by auto
  have "authenticate (from_virtual_keys (cfg_virtual_keys cfg)) (expose (vk_key vk)) = Some (identity_of vk)"
    using authenticate_distinct[OF d] assms(4) by blast
  then show "Option.bind authorization (en_to_str en) = Some (''Bearer '' @ expose (vk_key vk)) \<longrightarrow>
      from_request_parts (en_to_str en) (ap_keys (app_of g)) authorization = Inr (identity_of vk)"
    using ne by (simp add: run_frame(2)[OF assms(2,3)] from_request_parts_def is_open_def from_virtual_keys_Nil_iff)
  show "\<forall>b q. (identity_of vk, Sent b q) \<in> set evs \<longrightarrow> b \<in> set (cfg_backends cfg) \<and> be_privacy b = Local"
    using async_tasks[OF assms(3)] starts_state(4)[OF assms(2)] assms(5)
    by (auto simp: log_ok_def identity_of_def)
qed

text \<open>The first step of a request with the private key of the sample configuration.\<close>

definition private_caller :: key_identity where
  "private_caller = \<lparr>ki_name = ''a'', ki_enforce_private = True\<rparr>"

lemma private_arrival:
  "\<exists>g. async_run sample_environment (fresh_gateway sample_state) [Quiet]
     [(private_caller, Sent (sample_backends ! 1)
         (build_request (sample_backends ! 1) ''/v1/chat/completions'' ''{}''))] g"
proof -
  let ?req = "PostChatCompletions (Some ''Bearer secret-a'') ''{}''"
  have auth: "chat_of sample_environment (ap_keys sample_state) ?req = Some (private_caller, ''{}'')"
    by (simp add: chat_of_def from_request_parts_def sample_state_def is_open_def authenticate_def
        from_virtual_keys_def resolved_config_def resolved_virtual_key_def sample_defs identity_of_def
        sample_environment_def private_caller_def)
  have routed: "routed sample_externals private_caller ''{}'' sample_state = Inr (sample_backends ! 1)"
    by (simp add: routed_def route_eq with_policy_def new_query_def sample_backends_eq eligible_def select_def
        static_choose_def client_request_def sample_externals_def sample_state_def private_caller_def)
  have model: "cr_model (client_request sample_externals ''{}'') \<noteq> []" by (simp add: sample_admitted(2))
  note forwarded = begin_forwarded[OF sample_admitted(1)[of sample_world private_caller] model routed]
  from async_single[OF async_step.arrive[of sample_environment "fresh_gateway sample_state" ?req]] auth forwarded
  show ?thesis by (fastforce simp: Let_def send_event_def sample_environment_def)
qed

lemma private_key_reaches_local_only_witness:
  "\<exists>g. async_run sample_environment (fresh_gateway sample_state) [Quiet]
       [(private_caller, Sent (sample_backends ! 1)
           (build_request (sample_backends ! 1) ''/v1/chat/completions'' ''{}''))] g
     \<and> be_privacy (sample_backends ! 1) = Local"
proof -
  let ?vk = "resolved_virtual_key sample_env (hd (raw_virtual_keys sample_raw))"
  have vk: "?vk \<in> set (cfg_virtual_keys (resolved_config sample_env sample_raw ()))" "vk_enforce_private ?vk"
    "identity_of ?vk = private_caller"
    by (simp_all add: resolved_config_def resolved_virtual_key_def sample_defs identity_of_def private_caller_def)
  obtain g where g: "async_run sample_environment (fresh_gateway sample_state) [Quiet]
       [(private_caller, Sent (sample_backends ! 1)
           (build_request (sample_backends ! 1) ''/v1/chat/completions'' ''{}''))] g"
    using private_arrival by blast
  from private_key_reaches_local_only[OF sample_loads sample_starts g vk(1,2), of None] g vk(3) show ?thesis by auto
qed

section \<open>Settling streams\<close>

lemma book_rest:
  assumes "i < length (streams_of g)" and "lv_booking (streams_of g ! i) = Some ops"
  shows "\<exists>g'. async_run en g (map (Booked i) ops) [] g'
    \<and> streams_of g' = (streams_of g)[i := (streams_of g ! i)\<lparr>lv_booking := Some []\<rparr>] \<and> as_tasks g' = as_tasks g"
  using assms
proof (induction ops arbitrary: g)
  case Nil
  then have "(streams_of g)[i := (streams_of g ! i)\<lparr>lv_booking := Some []\<rparr>] = streams_of g"
    by (cases "streams_of g ! i") (simp add: list_update_same_conv)
  then show ?case using async_run.async_start[of en g] by (intro exI[of _ g]) simp
next
  case (Cons op ops)
  let ?s = "(streams_of g ! i)\<lparr>lv_booking := Some ops\<rparr>"
  let ?g = "g\<lparr>as_gateway := (as_gateway g)\<lparr>gw_app := perform 0 op (app_of g), gw_streams := (streams_of g)[i := ?s]\<rparr>\<rparr>"
  have "async_step en g (Booked i op) [] ?g"
    by (rule async_step.streaming[OF stream_step.book[OF Cons.prems(1) refl Cons.prems(2)]])
  note first = async_single[OF this]
  obtain g' where g': "async_run en ?g (map (Booked i) ops) [] g'"
    "streams_of g' = (streams_of ?g)[i := (streams_of ?g ! i)\<lparr>lv_booking := Some []\<rparr>]" "as_tasks g' = as_tasks ?g"
    using Cons.IH[of ?g] Cons.prems(1) by auto
  from async_run_trans[OF g'(1) first] g'(2,3) Cons.prems(1) show ?case by (intro exI[of _ g']) simp
qed

text \<open>C24: no stream can be stuck unaccounted: from every reachable state, the client letting go of its
  response (if it has not), the accounting task receiving its summary and its calls settle any given
  stream, in at most six steps and whatever state the relay is in: no call of its accounting task is left.\<close>
theorem streams_can_settle:
  assumes "async_run en (fresh_gateway st) ls evs g" and "i < length (streams_of g)"
  shows "\<exists>ls' g'. length ls' \<le> 6 \<and> async_run en g ls' [] g' \<and> lv_booking (streams_of g' ! i) = Some []"
proof -
  let ?s = "streams_of g ! i"
  have ok: "stream_ok ?s" using async_gateway_ok[OF assms(1)] assms(2) by (simp add: gateway_ok_def)
  have booking: "\<exists>ls' g''. length ls' \<le> 4 \<and> async_run en g' ls' [] g'' \<and> lv_booking (streams_of g'' ! i) = Some []"
    if i: "i < length (streams_of g')" and b: "lv_booking (streams_of g' ! i) = Some ops" "length ops \<le> 4"
    for g' :: "'a async_gateway" and ops
  proof -
    obtain g'' where "async_run en g' (map (Booked i) ops) [] g''"
      "streams_of g'' = (streams_of g')[i := (streams_of g' ! i)\<lparr>lv_booking := Some []\<rparr>]"
      using book_rest[OF i b(1)] by blast
    with i b(2) show ?thesis by (intro exI[of _ "map (Booked i) ops"] exI[of _ g'']) simp
  qed
  have summarising: "\<exists>ls' g''. length ls' \<le> 5 \<and> async_run en g' ls' [] g'' \<and> lv_booking (streams_of g'' ! i) = Some []"
    if i: "i < length (streams_of g')" and s: "streams_of g' ! i = s" "stream_ok s" "lv_booking s = None"
      "\<not> ry_reporter (relay_of s)" for g' :: "'a async_gateway" and s
  proof -
    obtain summary where sent: "ry_sent (relay_of s) = summary # []"
      using s(2,4) by (auto simp: stream_ok_def channel_ok_def length_Suc_conv)
    let ?ops = "accounting_task (lv_task s) (Some summary)"
    let ?g = "g'\<lparr>as_gateway := (as_gateway g')\<lparr>gw_streams := (streams_of g')[i := s\<lparr>lv_booking := Some ?ops\<rparr>]\<rparr>\<rparr>"
    have "async_step en g' Quiet [] ?g"
      by (rule async_step.streaming[OF stream_step.summarise[OF i s(1,3) sent]])
    note first = async_single[OF this]
    obtain ls' g'' where "length ls' \<le> 4" "async_run en ?g ls' [] g''" "lv_booking (streams_of g'' ! i) = Some []"
      using booking[of ?g ?ops] i task_charges(3) by auto
    with async_run_trans[OF this(2) first] show ?thesis
      by (intro exI[of _ "[Quiet] @ ls'"] exI[of _ g'']) simp
  qed
  show ?thesis
  proof (cases "lv_booking ?s")
    case (Some ops)
    obtain summary where "suffix ops (accounting_task (lv_task ?s) (Some summary))" using stream_ok_due[OF ok Some] by blast
    then have "length ops \<le> 4" using task_charges(3)[of "lv_task ?s" summary] suffix_length_le by fastforce
    from booking[OF assms(2) Some this] obtain ls' g' where "length ls' \<le> 4" "async_run en g ls' [] g'"
      "lv_booking (streams_of g' ! i) = Some []" by blast
    then show ?thesis by (intro exI[of _ ls'] exI[of _ g']) simp
  next
    case None
    show ?thesis
    proof (cases "ry_reporter (relay_of ?s)")
      case False
      from summarising[OF assms(2) refl ok None this] obtain ls' g' where "length ls' \<le> 5" "async_run en g ls' [] g'"
        "lv_booking (streams_of g' ! i) = Some []" by blast
      then show ?thesis by (intro exI[of _ ls'] exI[of _ g']) simp
    next
      case True
      then have nd: "\<not> lv_dropped ?s" using ok by (auto simp: stream_ok_def)
      let ?s' = "(with_relay (relay_drop (relay_of ?s)) ?s)\<lparr>lv_dropped := True\<rparr>"
      let ?g' = "g\<lparr>as_gateway := (as_gateway g)\<lparr>gw_streams := (streams_of g)[i := ?s']\<rparr>\<rparr>"
      have step: "async_step en g Quiet [] ?g'"
        by (rule async_step.streaming[OF stream_step.drop[OF assms(2) refl nd]])
      have r: "\<not> ry_reporter (relay_of ?s')" by (simp add: relay_drop_def report_def)
      have "channel_ok (relay_of ?s')" using ok channel_drop by (simp add: stream_ok_def)
      then have ok': "stream_ok ?s'" "lv_booking ?s' = None" using None r by (simp_all add: stream_ok_def)
      obtain ls' g'' where l: "length ls' \<le> 5" "async_run en ?g' ls' [] g''" "lv_booking (streams_of g'' ! i) = Some []"
        using summarising[of ?g' ?s'] ok' r assms(2) by auto
      from async_run_trans[OF l(2) async_single[OF step]] l(1,3) show ?thesis
        by (intro exI[of _ "[Quiet] @ ls'"] exI[of _ g'']) simp
    qed
  qed
qed

text \<open>A stream from its request to its booking: two chunks that together carry one usage event, the end.\<close>

definition relaying_environment :: "nat environment" where
  "relaying_environment =
     \<lparr>en_externals = sample_externals\<lparr>ex_parse_request := (\<lambda>b. Some \<lparr>cr_model = ''m'', cr_stream = True\<rparr>)\<rparr>,
      en_to_str = Some, en_hash_order = (\<lambda>_. []), en_parse_env = sample_parse_env, en_timer = (\<le>)\<rparr>"

definition relayed_chunks :: "bytes list" where
  "relayed_chunks = [''data: {\"usa'', ''ge\":1}'' @ [LF, LF]]"

lemma stream_opened:
  "\<exists>ls evs g. async_run relaying_environment (fresh_gateway sample_state) ls evs g
     \<and> map lv_dropped (streams_of g) = [False] \<and> map lv_booking (streams_of g) = [None]
     \<and> map relay_of (streams_of g) = [relay_new stall_timeout 0]
     \<and> map (\<lambda>s. st_key (lv_task s)) (streams_of g) = [''b''] \<and> as_tasks g = []
     \<and> received 0 ls = [] \<and> concat (map (body_charges (en_externals relaying_environment)) ls) = []"
proof -
  let ?en = relaying_environment
  let ?ex = "en_externals ?en" and ?req = "PostChatCompletions (Some ''Bearer secret-b'') ''{}''"
  let ?c = "\<lparr>ca_identity = plain_caller, ca_body = ''{}'',
    ca_request = \<lparr>cr_model = ''m'', cr_stream = True\<rparr>, ca_backend = hd sample_backends\<rparr>"
  let ?m = "\<lparr>mo_noise = 0, mo_instant = 0\<rparr>"
  let ?resp = "\<lparr>hr_status = 200, hr_content_type = None, hr_text = None, hr_bytes = Inr []\<rparr>"
  let ?st = "after_check ?ex sample_world plain_caller sample_state"
  let ?op = "RequestMetric (be_name (hd sample_backends)) ''m'' ''2xx''"
  have auth: "chat_of ?en (ap_keys sample_state) ?req = Some (plain_caller, ''{}'')"
    using sample_arrives by (simp add: chat_of_def sample_environment_def relaying_environment_def)
  have adm: "admitted ?ex sample_world plain_caller sample_state = Inr ()"
    "client_request ?ex ''{}'' = \<lparr>cr_model = ''m'', cr_stream = True\<rparr>"
    "routed ?ex plain_caller ''{}'' sample_state = Inr (hd sample_backends)"
    using sample_admitted(1)[of sample_world plain_caller] sample_admitted(2)[of "''{}''"] sample_admitted(3)[of "''{}''"]
    by (simp_all add: relaying_environment_def admitted_def client_request_def routed_def sample_externals_def plain_caller_def)
  have begun: "begin_chat ?ex (wo_instant sample_world) plain_caller ''{}'' sample_state = (Opening ?c 0, ?st, [], [send_event ?c])"
    using begin_forwarded[OF adm(1) _ adm(3)] adm(2) by (simp add: Let_def)
  let ?g1 = "\<lparr>as_gateway = \<lparr>gw_app = ?st, gw_streams = []\<rparr>, as_tasks = [([], Opening ?c 0)]\<rparr>"
  have s1: "async_step ?en (fresh_gateway sample_state) Quiet (map (Pair plain_caller) [send_event ?c]) ?g1"
    using async_step.arrive[of ?en "fresh_gateway sample_state" ?req plain_caller "''{}''" "wo_instant sample_world"] auth begun
    by (simp add: booted_def fresh_gateway_def)
  have ok: "ex_is_success ?ex 200" by (simp add: relaying_environment_def sample_externals_def word_le_nat_alt word_less_nat_alt)
  obtain rsp where rsp: "chat_step ?ex ?m (Answered (Inr ?resp)) (Opening ?c 0) = Some (Replied rsp, [?op], [])"
    "opened rsp = [\<lparr>lv_task = \<lparr>st_key = ''b'', st_backend = be_name (hd sample_backends), st_model = ''m'',
       st_relay = relay_new stall_timeout 0\<rparr>, lv_dropped = False, lv_booking = None\<rparr>]"
    using ok by (simp add: finish_chat_def respond_def Let_def stream_response_def opened_def plain_caller_def)
  let ?g2 = "\<lparr>as_gateway = \<lparr>gw_app = ?st, gw_streams = []\<rparr>, as_tasks = [([?op], Replied rsp)]\<rparr>"
  have s2: "async_step ?en ?g1 (Woken plain_caller (Answered (Inr ?resp))) [] ?g2"
    using async_step.resume[of 0 ?g1 "Opening ?c 0" ?c ?en ?m "Answered (Inr ?resp)" "Replied rsp" "[?op]" "[]"] rsp(1)
    by simp
  let ?g3 = "\<lparr>as_gateway = \<lparr>gw_app = perform 0 ?op ?st, gw_streams = []\<rparr>, as_tasks = [([], Replied rsp)]\<rparr>"
  have s3: "async_step ?en ?g2 (Performed ?op) [] ?g3"
    using async_step.perform_next[of 0 ?g2 ?op "[]" "Replied rsp" ?en 0] by simp
  let ?g4 = "\<lparr>as_gateway = \<lparr>gw_app = perform 0 ?op ?st, gw_streams = opened rsp\<rparr>, as_tasks = []\<rparr>"
  have s4: "async_step ?en ?g3 Quiet [] ?g4"
    using async_step.reply[of 0 ?g3 rsp ?en] by (simp add: without_def)
  have "async_run ?en (fresh_gateway sample_state) ((([Quiet] @ [Woken plain_caller (Answered (Inr ?resp))]) @ [Performed ?op]) @ [Quiet])
      (((map (Pair plain_caller) [send_event ?c] @ []) @ []) @ []) ?g4"
    by (intro async_run.async_more[OF _ s4] async_run.async_more[OF _ s3] async_run.async_more[OF _ s2] async_single[OF s1])
  then show ?thesis
    using rsp(2) by (intro exI conjI) (assumption, simp_all add: received_def)
qed

lemma streams_can_settle_witness:
  "\<exists>ls evs g ls' g'. async_run relaying_environment (fresh_gateway sample_state) ls evs g \<and> length (streams_of g) = 1
     \<and> length ls' \<le> 6 \<and> async_run relaying_environment g ls' [] g' \<and> lv_booking (streams_of g' ! 0) = Some []"
proof -
  obtain ls evs g where g: "async_run relaying_environment (fresh_gateway sample_state) ls evs g"
    "map lv_dropped (streams_of g) = [False]"
    using stream_opened by (elim exE conjE) (rule that; assumption)
  then have l: "length (streams_of g) = 1" by (metis One_nat_def length_Cons length_map list.size(3))
  then have "0 < length (streams_of g)" by simp
  from streams_can_settle[OF g(1) this] obtain ls' g' where "length ls' \<le> 6"
    "async_run relaying_environment g ls' [] g'" "lv_booking (streams_of g' ! 0) = Some []" by blast
  with g(1) l show ?thesis by blast
qed

section \<open>The model list\<close>

text \<open>The identifiers of a model-list response.\<close>

definition listed_ids :: "'s response \<Rightarrow> string list" where
  "listed_ids rsp = (case rsp_body rsp of
     JsonBody j \<Rightarrow>
       (case json_get ''data'' j of
          Some (JArray ms) \<Rightarrow>
            List.map_filter (\<lambda>m. case json_get ''id'' m of Some (JString i) \<Rightarrow> Some i | _ \<Rightarrow> None) ms
        | _ \<Rightarrow> [])
   | _ \<Rightarrow> [])"

lemma listed_ids_list_models:
  "listed_ids (list_models hash_order st) = hash_order (set (concat (map be_models (ro_backends (ap_router st)))))"
proof -
  let ?entry = "\<lambda>m. JObject [(''id'', JString m), (''object'', JString ''model''), (''owned_by'', JString ''patchbay'')]"
  have "List.map_filter (\<lambda>m. case json_get ''id'' m of Some (JString i) \<Rightarrow> Some i | _ \<Rightarrow> None) (map ?entry xs) = xs"
    for xs by (induction xs) (simp_all add: map_filter_simps)
  then show ?thesis by (simp add: listed_ids_def list_models_def Let_def)
qed

text \<open>C35: the model list is honest: in every reachable state it names each configured model exactly once,
  whatever the iteration order of the hash set, and a non-private request for a model is routed to some
  backend exactly when the model is on the list.\<close>
theorem listed_models_are_servable:
  assumes "starts cfg st" and "async_run en (fresh_gateway st) ls evs g"
    and "hash_order (set (concat (map be_models (cfg_backends cfg)))) = ids"
    and "distinct ids" and "set ids = set (concat (map be_models (cfg_backends cfg)))"
  shows "listed_ids (list_models hash_order (app_of g)) = ids \<and> distinct ids
    \<and> (model \<in> set ids \<longleftrightarrow> (\<exists>b. route (ap_router (app_of g)) (new_query model) False = Inr b))"
proof -
  have bs: "ro_backends (ap_router (app_of g)) = cfg_backends cfg"
    using run_frame(1)[OF assms(1,2)] starts_state(4)[OF assms(1)] by simp
  have "(\<exists>b. route (ap_router (app_of g)) (new_query model) False = Inr b) \<longleftrightarrow>
      find (eligible (new_query model) False) (cfg_backends cfg) \<noteq> None"
    using routes_first[OF assms(1,2), of "new_query model" False] by (simp split: option.split)
  also have "\<dots> \<longleftrightarrow> model \<in> set ids"
    by (auto simp: find_None_iff assms(5) eligible_def new_query_def)
  finally show ?thesis using assms(3,4) by (simp add: listed_ids_list_models bs)
qed

lemma listed_models_are_servable_witness:
  "\<exists>ls evs g. async_run sample_environment (fresh_gateway sample_state) ls evs g
     \<and> listed_ids (list_models (\<lambda>M. if M = {''m'', ''q''} then [''q'', ''m''] else []) (app_of g)) = [''q'', ''m'']"
proof -
  obtain ls evs g where g: "async_run sample_environment (fresh_gateway sample_state) ls evs g"
    using sample_run by blast
  have m: "set (concat (map be_models (cfg_backends (resolved_config sample_env sample_raw ())))) = {''m'', ''q''}"
    by (auto simp: sample_backends_def[symmetric] sample_backends_eq)
  let ?h = "\<lambda>M. if M = {''m'', ''q''} then [''q'', ''m''] else []"
  have h: "?h (set (concat (map be_models (cfg_backends (resolved_config sample_env sample_raw ()))))) = [''q'', ''m'']"
    "distinct [''q'', ''m'']"
    "set [''q'', ''m''] = set (concat (map be_models (cfg_backends (resolved_config sample_env sample_raw ()))))"
    by (simp_all only: m) auto
  from listed_models_are_servable[OF sample_starts g, where hash_order = ?h, OF h] g show ?thesis by blast
qed

section \<open>Books and bytes\<close>

text \<open>C3: what the ledger holds is what was received. In every run of the gateway in which each streaming
  client gets no more than the event buffer holds, the counters of the ledger are, key by key, the sums of
  certain usages, and these, together with those still due (a call on the ledger that is still to be made),
  are: for every buffered body that a request read, the usage object in it, and for every stream whose summary
  its accounting task has received, the last usage object of the event stream formed by the very bytes its
  client received; each once, each under the key of its request, and no other, however the network cut
  those bytes and however requests, polls, disconnects and single calls interleaved.\<close>
theorem booked_is_received:
  assumes "starts cfg st" and "async_run en (fresh_gateway st) ls evs g"
    and "\<And>i. i < length (streams_of g) \<Longrightarrow> length (concat (received i ls)) \<le> 1024 * 1024"
  shows "\<exists>booked. (\<forall>key. used_tokens (ap_budget (app_of g)) key =
        (of_nat (charged us_prompt key booked), of_nat (charged us_completion key booked),
         of_nat (charged us_total key booked)))
    \<and> mset booked + mset (ops_charges (due_ops g)) =
        mset (concat (map (body_charges (en_externals en)) ls)) +
        mset (concat (map (\<lambda>i. if lv_booking (streams_of g ! i) = None then []
                             else charge_of (st_key (lv_task (streams_of g ! i))) (usage_received en i ls))
                       [0 ..< length (streams_of g)]))"
proof (intro exI conjI allI)
  have "ap_budget (app_of g) = budget_records (all_charges ls) (ap_budget st)"
    using async_accounts[OF assms(2)] by (simp add: accounts_def)
  then show "used_tokens (ap_budget (app_of g)) key =
      (of_nat (charged us_prompt key (all_charges ls)), of_nat (charged us_completion key (all_charges ls)),
       of_nat (charged us_total key (all_charges ls)))" for key
    using starts_state(6)[OF assms(1)] by (simp add: used_after_records)
  have "mset (all_charges ls) + mset (ops_charges (due_ops g)) =
      (mset (concat (map request_charges ls)) + mset (task_dues g)) +
      (mset (concat (map stream_charges ls)) + mset (stream_dues g))"
    by (simp add: charges_split due_ops_charges ac_simps)
  also have "\<dots> = mset (concat (map (body_charges (en_externals en)) ls)) +
      mset (concat (map (\<lambda>i. if lv_booking (streams_of g ! i) = None then []
                         else charge_of (st_key (lv_task (streams_of g ! i))) (usage_received en i ls))
                     [0 ..< length (streams_of g)]))"
    using async_task_dues[OF assms(2)] streams_charged[OF assms(2)] assms(3) by (simp only: max_event_buffer_def)
  finally show "mset (all_charges ls) + mset (ops_charges (due_ops g)) = \<dots>" .
qed

lemma polls_run:
  assumes "streams_of g = [s]" and "\<not> lv_dropped s"
    and "relay_run (en_parse_env en) (en_timer en) us (relay_of s) = (outs, r)"
  shows "\<exists>g'. async_run en g (map (Polled 0) outs) [] g' \<and> streams_of g' = [with_relay r s]
    \<and> as_tasks g' = as_tasks g"
  using assms
proof (induction us arbitrary: g s outs)
  case Nil
  then show ?case using async_run.async_start[of en g] by (auto simp: with_relay_def)
next
  case (Cons u us)
  obtain up now where u: "u = (up, now)" by (cases u)
  obtain out r1 where p: "poll_next (en_parse_env en) (en_timer en) up now (relay_of s) = (out, r1)" by fastforce
  obtain outs' where rest: "relay_run (en_parse_env en) (en_timer en) us r1 = (outs', r)" "outs = out # outs'"
    using Cons.prems(3) p by (auto simp: u split: prod.splits)
  let ?g = "g\<lparr>as_gateway := (as_gateway g)\<lparr>gw_streams := [with_relay r1 s]\<rparr>\<rparr>"
  have "async_step en g (Polled 0 out) [] ?g"
    using async_step.streaming[OF stream_step.poll[of 0 "as_gateway g" s en up now]] Cons.prems(1,2) p by simp
  note first = async_single[OF this]
  obtain g' where "async_run en ?g (map (Polled 0) outs') [] g'" "streams_of g' = [with_relay r (with_relay r1 s)]"
    "as_tasks g' = as_tasks g"
    using Cons.IH[of ?g "with_relay r1 s" outs'] rest(1) Cons.prems(2) by auto
  with async_run_trans[OF _ first] rest(2) show ?case by (fastforce simp: with_relay_def)
qed

lemma polled_labels:
  "concat (map (poll_output 0) (map (Polled 0) outs)) = outs" "concat (map (body_charges ex) (map (Polled 0) outs)) = []"
  by (induction outs) simp_all

lemma booked_labels:
  "concat (map (poll_output 0) (map (Booked 0) ops)) = []" "concat (map (body_charges ex) (map (Booked 0) ops)) = []"
  by (induction ops) simp_all

lemma relayed_run:
  "\<exists>ls evs g. async_run relaying_environment (fresh_gateway sample_state) ls evs g
     \<and> map lv_booking (streams_of g) = [Some []] \<and> map (\<lambda>s. st_key (lv_task s)) (streams_of g) = [''b''] \<and> as_tasks g = []
     \<and> received 0 ls = relayed_chunks \<and> concat (map (body_charges (en_externals relaying_environment)) ls) = []"
proof -
  let ?en = relaying_environment
  obtain ls evs g where g: "async_run ?en (fresh_gateway sample_state) ls evs g"
    "map lv_dropped (streams_of g) = [False]" "map lv_booking (streams_of g) = [None]"
    "map relay_of (streams_of g) = [relay_new stall_timeout 0]"
    "map (\<lambda>s. st_key (lv_task s)) (streams_of g) = [''b'']" "as_tasks g = []" "received 0 ls = []"
    "concat (map (body_charges (en_externals ?en)) ls) = []"
    using stream_opened by (elim exE conjE) (rule that; assumption)
  then obtain s where s: "streams_of g = [s]" "\<not> lv_dropped s" "lv_booking s = None"
    "relay_of s = relay_new stall_timeout 0" "st_key (lv_task s) = ''b''" by (auto simp: map_eq_Cons_conv)
  let ?us = "map (\<lambda>c. (UpChunk c, 1)) relayed_chunks @ [(UpEnd, 2)]"
  obtain outs r where run: "relay_run (en_parse_env ?en) (en_timer ?en) ?us (relay_of s) = (outs, r)" by fastforce
  have life: "delivered outs = relayed_chunks" "ry_finished r"
    using relay_run_life[OF relay_new_live[of stall_timeout 0], where p = "en_parse_env ?en" and timer = "en_timer ?en" and us = ?us]
      run s(4) by (auto simp: relayed_chunks_def relay_after_def relay_new_def)
  obtain g1 where g1: "async_run ?en g (map (Polled 0) outs) [] g1" "streams_of g1 = [with_relay r s]" "as_tasks g1 = []"
    using polls_run[OF s(1,2) run] g(6) by auto
  note run1 = async_run_trans[OF g1(1) g(1)]
  have "tracks (en_parse_env ?en) (received 0 (ls @ map (Polled 0) outs)) (with_relay r s)"
    using async_tracks[OF run1] g1(2) by (auto simp: all_track_def dest: spec[of _ 0])
  then have "\<not> ry_reporter r" using life(2) by (auto simp: tracks_def Let_def)
  moreover have "stream_ok (with_relay r s)" using async_gateway_ok[OF run1] g1(2) by (simp add: gateway_ok_def)
  ultimately obtain summary where sent: "ry_sent r = summary # []"
    by (auto simp: stream_ok_def channel_ok_def length_Suc_conv)
  let ?s = "with_relay r s"
  let ?ops = "accounting_task (lv_task ?s) (Some summary)"
  let ?g2 = "g1\<lparr>as_gateway := (as_gateway g1)\<lparr>gw_streams := [?s\<lparr>lv_booking := Some ?ops\<rparr>]\<rparr>\<rparr>"
  have "async_step ?en g1 Quiet [] ?g2"
    using async_step.streaming[OF stream_step.summarise[of 0 "as_gateway g1" ?s summary "[]" ?en]] g1(2) s(3) sent by simp
  note run2 = async_run.async_more[OF run1 this]
  obtain g3 where g3: "async_run ?en ?g2 (map (Booked 0) ?ops) [] g3"
    "streams_of g3 = [?s\<lparr>lv_booking := Some []\<rparr>]" "as_tasks g3 = []"
    using book_rest[of 0 ?g2 ?ops ?en] g1(3) by auto
  have "received 0 (((ls @ map (Polled 0) outs) @ [Quiet]) @ map (Booked 0) ?ops) = relayed_chunks"
    using g(7) life(1)
    by (simp only: received_def map_append concat_append delivered_append polled_labels booked_labels) simp
  moreover have "concat (map (body_charges (en_externals ?en)) (((ls @ map (Polled 0) outs) @ [Quiet]) @ map (Booked 0) ?ops)) = []"
    using g(8) by (simp only: map_append concat_append polled_labels booked_labels) simp
  ultimately show ?thesis
    using async_run_trans[OF g3(1) run2] g3(2,3) s(5) by (intro exI conjI) (assumption, simp_all)
qed

lemma relayed_payloads: "stream_payloads (concat relayed_chunks) = [''{\"usage\":1}'']"
  by code_simp

lemma relayed_usage:
  "last_option (List.map_filter (usage_of sample_parse_env) (stream_payloads (concat relayed_chunks))) =
     Some \<lparr>us_prompt = 3, us_completion = 4, us_total = 7\<rparr>"
proof -
  have "''{\"usage\":1}'' = ''{'' @ ''\"usage\"'' @ '':1}''" by simp
  then have "\<exists>before after. ''{\"usage\":1}'' = before @ ''\"usage\"'' @ after" by blast
  then have "usage_of sample_parse_env ''{\"usage\":1}'' = Some \<lparr>us_prompt = 3, us_completion = 4, us_total = 7\<rparr>"
    by (simp add: usage_of_def done_marker_def sample_parse_env_def)
  then show ?thesis unfolding relayed_payloads by (simp add: map_filter_simps last_option_def)
qed

lemma booked_is_received_witness:
  "\<exists>ls evs g. async_run relaying_environment (fresh_gateway sample_state) ls evs g \<and> received 0 ls = relayed_chunks
     \<and> used_tokens (ap_budget (app_of g)) ''b'' = (3, 4, 7)"
proof -
  obtain ls evs g where g: "async_run relaying_environment (fresh_gateway sample_state) ls evs g"
    "map lv_booking (streams_of g) = [Some []]" "map (\<lambda>s. st_key (lv_task s)) (streams_of g) = [''b'']" "as_tasks g = []"
    "received 0 ls = relayed_chunks" "concat (map (body_charges (en_externals relaying_environment)) ls) = []"
    using relayed_run by (elim exE conjE) (rule that; assumption)
  then obtain s where s: "streams_of g = [s]" "lv_booking s = Some []" "st_key (lv_task s) = ''b''"
    by (auto simp: map_eq_Cons_conv)
  let ?u = "\<lparr>us_prompt = 3, us_completion = 4, us_total = 7\<rparr>"
  have u: "usage_received relaying_environment 0 ls = Some ?u"
    using relayed_usage by (simp add: usage_received_def g(5) relaying_environment_def)
  have due: "due_ops g = []" using s by (simp add: due_ops_def still_due_def g(4))
  have small: "length (concat (received i ls)) \<le> 1024 * 1024" if "i < length (streams_of g)" for i
    using that s(1) g(5) by (simp add: relayed_chunks_def)
  obtain booked where b: "used_tokens (ap_budget (app_of g)) ''b'' =
      (of_nat (charged us_prompt ''b'' booked), of_nat (charged us_completion ''b'' booked), of_nat (charged us_total ''b'' booked))"
    "mset booked = {#(''b'', ?u)#}"
    using booked_is_received[OF sample_starts g(1) small] s u due g(6) by auto
  then have "booked = [(''b'', ?u)]" by simp
  with b(1) have "used_tokens (ap_budget (app_of g)) ''b'' = (3, 4, 7)" by (simp add: charged_def)
  with g(1,5) show ?thesis by blast
qed

end
